theory Spec2Isabelle
  imports Complex_Main "HOL-Library.Word"
begin

unbundle bit_operations_syntax

section \<open>JavaScript values used by the client\<close>

text \<open>
  A JavaScript string is a sequence of code units. The model uses \<^typ>\<open>string\<close>, so a
  code unit ranges over 0..255 (ASCII and the Latin-1 block); \<open>''''\<close> is the empty string,
  the only falsy string.
\<close>

text \<open>
  A JavaScript \<open>number\<close> is an IEEE 754 double. A finite double is the \<^typ>\<open>real\<close> it
  denotes, and the comparisons \<open><\<close> and \<open>>=\<close> of the source are the comparisons of these
  reals. The one arithmetic operation on times is the subtraction \<open>end - start\<close>: its
  result is the exact difference rounded to the nearest double, ties to the even
  significand. \<open>binary_exponent a\<close> is the \<open>e\<close> with \<open>2^e \<le> a < 2^(e+1)\<close> for a positive
  \<open>a\<close>; a double has 53 significant bits, and below \<open>2^-1022\<close> (the subnormal doubles)
  the spacing stays \<open>2^-1074\<close>. A difference beyond the largest double is not modelled
  as an infinity: it stays a real of that size.
\<close>

function bit_length :: "int \<Rightarrow> nat" where
  "bit_length k = (if k \<le> 0 then 0 else Suc (bit_length (k div 2)))"
  by pat_completeness auto
termination
  by (relation "measure nat") auto

declare bit_length.simps [simp del]

definition binary_exponent :: "real \<Rightarrow> int" where
  "binary_exponent a =
     (if 1 \<le> a then int (bit_length \<lfloor>a\<rfloor>) - 1
      else - int (bit_length (\<lceil>1 / a\<rceil> - 1)))"

definition pow2 :: "int \<Rightarrow> real" where
  "pow2 p = (if 0 \<le> p then 2 ^ nat p else 1 / 2 ^ nat (- p))"

definition round_half_even :: "real \<Rightarrow> int" where
  "round_half_even q =
     (let f = \<lfloor>q\<rfloor> in
      if q - of_int f < 1 / 2 then f
      else if 1 / 2 < q - of_int f then f + 1
      else if even f then f else f + 1)"

definition double_round :: "real \<Rightarrow> real" where
  "double_round x =
     (if x = 0 then 0
      else (let a = \<bar>x\<bar>;
                p = max (binary_exponent a) (- 1022) - 52
            in sgn x * (of_int (round_half_even (a / pow2 p)) * pow2 p)))"

text \<open>\<open>a - b\<close> on numbers.\<close>

definition js_sub :: "real \<Rightarrow> real \<Rightarrow> real" where
  "js_sub a b = double_round (a - b)"

text \<open>
  The class \<open>\s\<close> of a JavaScript regular expression, on the code units 0..255: TAB, LF,
  VT, FF, CR, SPACE and NO-BREAK SPACE.
\<close>

definition isWhitespace :: "char \<Rightarrow> bool" where
  "isWhitespace c =
     (c \<in> set [CHR 0x09, CHR 0x0A, CHR 0x0B, CHR 0x0C, CHR 0x0D, CHR 0x20, CHR 0xA0])"

text \<open>
  \<open>s.split(/\s+/)\<close>: the pieces of \<open>s\<close> between the maximal runs of whitespace. The
  first argument is the piece being read. A run at the start or at the end of \<open>s\<close>
  leaves an empty piece there, and the empty string gives the one piece \<open>''''\<close>.
\<close>

function splitWhitespace :: "string \<Rightarrow> string \<Rightarrow> string list" where
  "splitWhitespace tok [] = [tok]"
| "splitWhitespace tok (c # cs) =
     (if isWhitespace c then tok # splitWhitespace [] (dropWhile isWhitespace cs)
      else splitWhitespace (tok @ [c]) cs)"
  by pat_completeness auto
termination
  by (relation "measure (\<lambda>(tok, s). length s)")
     (auto simp: le_imp_less_Suc length_dropWhile_le)

definition split_ws :: "string \<Rightarrow> string list" where
  "split_ws s = splitWhitespace [] s"

text \<open>\<open>xs.join(' ')\<close> on an array of strings.\<close>

fun join_space :: "string list \<Rightarrow> string" where
  "join_space [] = []"
| "join_space [x] = x"
| "join_space (x # y # ys) = x @ '' '' @ join_space (y # ys)"

section \<open>Data model (types.ts)\<close>

text \<open>
  \<open>TranscriptionSegment\<close>. The fields \<open>end\<close> and \<open>text\<close> are \<open>end_seg\<close> and
  \<open>text_seg\<close> here. \<open>isFavorite?: boolean\<close> is optional: \<open>None\<close> is the absent field,
  which reads as \<open>undefined\<close>.
\<close>

record segment =
  start :: real
  end_seg :: real
  text_seg :: string
  translation :: string
  idiomatic :: string
  isFavorite :: "bool option"

record meta_info =
  wordCount :: int
  estimatedLevel :: string
  speed :: string

record transcription_response =
  language :: string
  segments :: "segment list"
  meta :: meta_info

section \<open>Segment merger (geminiService.ts, mergeShortSegments)\<close>

definition MIN_WORDS :: nat where
  "MIN_WORDS = 4"

text \<open>
  The \<open>for\<close> loop of \<open>mergeShortSegments\<close>, with its variables \<open>i\<close>, \<open>current\<close> and
  \<open>merged\<close> as arguments; \<open>next.idiomatic || current.idiomatic\<close> takes the left string
  unless it is empty.
\<close>

function mergeLoop :: "segment list \<Rightarrow> nat \<Rightarrow> segment \<Rightarrow> segment list \<Rightarrow> segment list" where
  "mergeLoop segs i current merged =
     (if i < length segs then
        (let next = segs ! i;
             currentWordCount = length (split_ws (text_seg current));
             duration = js_sub (end_seg current) (start current)
         in if currentWordCount < MIN_WORDS \<and> duration < 2.0
            then mergeLoop segs (i + 1)
                   (current\<lparr>end_seg := end_seg next,
                            text_seg := text_seg current @ '' '' @ text_seg next,
                            translation := translation current @ '' '' @ translation next,
                            idiomatic := (if idiomatic next \<noteq> [] then idiomatic next
                                          else idiomatic current)\<rparr>)
                   merged
            else mergeLoop segs (i + 1) next (merged @ [current]))
      else merged @ [current])"
  by pat_completeness auto
termination
  by (relation "measure (\<lambda>(segs, i, current, merged). length segs - i)") auto

declare mergeLoop.simps [simp del]

definition mergeShortSegments :: "segment list \<Rightarrow> segment list" where
  "mergeShortSegments segs =
     (if length segs = 0 then [] else mergeLoop segs 1 (segs ! 0) [])"

text \<open>The condition of the \<open>if\<close> in the loop, on the value of \<open>current\<close>.\<close>

definition shouldMerge :: "segment \<Rightarrow> bool" where
  "shouldMerge current =
     (length (split_ws (text_seg current)) < MIN_WORDS \<and>
      js_sub (end_seg current) (start current) < 2.0)"

subsection \<open>The merger as the specification words it\<close>

text \<open>
  The accumulator extended by the next segment: its \<open>end\<close> is the next one's, text and
  translation are joined with a single space, and the next idiomatic string is taken
  unless it is empty.
\<close>

definition spec_merge :: "segment \<Rightarrow> segment \<Rightarrow> segment" where
  "spec_merge acc next =
     \<lparr>start = start acc, end_seg = end_seg next,
      text_seg = text_seg acc @ '' '' @ text_seg next,
      translation = translation acc @ '' '' @ translation next,
      idiomatic = (if idiomatic next = [] then idiomatic acc else idiomatic next),
      isFavorite = isFavorite acc\<rparr>"

text \<open>
  A left-to-right fold with an accumulator. The state is the committed output and the
  accumulator; \<open>short\<close> is the test that makes the accumulator absorb the next segment.
  After the last segment the accumulator is committed.
\<close>

fun fold_step ::
  "(segment \<Rightarrow> bool) \<Rightarrow> segment list \<times> segment \<Rightarrow> segment \<Rightarrow> segment list \<times> segment" where
  "fold_step short (out, acc) next =
     (if short acc then (out, spec_merge acc next) else (out @ [acc], next))"

definition fold_commit :: "segment list \<times> segment \<Rightarrow> segment list" where
  "fold_commit st = fst st @ [snd st]"

definition fold_merger :: "(segment \<Rightarrow> bool) \<Rightarrow> segment list \<Rightarrow> segment list" where
  "fold_merger short segs =
     (case segs of
        [] \<Rightarrow> []
      | first # rest \<Rightarrow> fold_commit (foldl (fold_step short) ([], first) rest))"

text \<open>
  The whitespace-delimited word count of a text: the number of its words, the maximal
  runs of code units that are not whitespace. \<open>count_words in_word s\<close> counts the words
  that begin in \<open>s\<close>, where \<open>in_word\<close> says whether the code unit before \<open>s\<close> belongs to
  a word.
\<close>

fun count_words :: "bool \<Rightarrow> string \<Rightarrow> nat" where
  "count_words in_word [] = 0"
| "count_words in_word (c # cs) =
     (if isWhitespace c then count_words False cs
      else (if in_word then 0 else 1) + count_words True cs)"

definition spec_wordCount :: "string \<Rightarrow> nat" where
  "spec_wordCount s = count_words False s"

text \<open>
  The test of the specification: fewer than 4 words and a duration below 2.0 seconds,
  the duration being the difference of the two doubles as double arithmetic gives it.
\<close>

definition spec_below_threshold :: "segment \<Rightarrow> bool" where
  "spec_below_threshold acc =
     (spec_wordCount (text_seg acc) < 4 \<and> js_sub (end_seg acc) (start acc) < 2)"

definition spec_merger :: "segment list \<Rightarrow> segment list" where
  "spec_merger segs = fold_merger spec_below_threshold segs"

text \<open>A text that is not empty and has no whitespace at its start or at its end.\<close>

definition no_edge_whitespace :: "string \<Rightarrow> bool" where
  "no_edge_whitespace t = (t \<noteq> [] \<and> \<not> isWhitespace (hd t) \<and> \<not> isWhitespace (last t))"

section \<open>Errors\<close>

text \<open>
  What the source throws, or what the platform throws under it. \<open>Error msg\<close> is
  \<open>new Error(msg)\<close>; \<open>Rejected msg\<close> is a failure of the network or of a remote
  service.
\<close>

datatype js_error =
    Error string
  | TypeError
  | RangeError
  | SyntaxError
  | InvalidCharacterError
  | NotSupportedError
  | Rejected string

section \<open>Active segment (TranscriptView.tsx)\<close>

text \<open>
  \<open>const isActive = currentTime >= segment.start && currentTime < segment.end\<close>, computed
  for every segment of the list that is rendered.
\<close>

definition isActive :: "real \<Rightarrow> segment \<Rightarrow> bool" where
  "isActive currentTime seg = (currentTime \<ge> start seg \<and> currentTime < end_seg seg)"

definition activeFlags :: "segment list \<Rightarrow> real \<Rightarrow> bool list" where
  "activeFlags segs currentTime = map (isActive currentTime) segs"

text \<open>
  The invariant the specification names: the half-open intervals \<open>[start, end)\<close> of two
  segments at different positions do not intersect.
\<close>

definition interval_of :: "segment \<Rightarrow> real set" where
  "interval_of seg = {start seg ..< end_seg seg}"

definition non_overlapping :: "segment list \<Rightarrow> bool" where
  "non_overlapping segs =
     (\<forall>i < length segs. \<forall>j < length segs. i \<noteq> j \<longrightarrow>
        interval_of (segs ! i) \<inter> interval_of (segs ! j) = {})"

section \<open>Favorite toggle (App.tsx, handleToggleFavorite)\<close>

text \<open>
  \<open>!x\<close> on an optional boolean: \<open>undefined\<close> and \<open>false\<close> are falsy.
\<close>

definition truthy :: "bool option \<Rightarrow> bool" where
  "truthy f = (f = Some True)"

text \<open>
  The state is the \<open>transcription\<close> of the component, \<open>None\<close> for \<open>null\<close>. The handler
  returns at once on \<open>null\<close>. It copies the array and replaces position \<open>index\<close> by a copy
  of the segment with \<open>isFavorite: !isFavorite\<close>. At a position outside the array
  \<open>newSegments[index]\<close> is \<open>undefined\<close> and reading its \<open>isFavorite\<close> throws a TypeError
  before any state is set. The index is an integer.
\<close>

definition handleToggleFavorite ::
  "int \<Rightarrow> transcription_response option \<Rightarrow> js_error + transcription_response option" where
  "handleToggleFavorite index transcription =
     (case transcription of
        None \<Rightarrow> Inr None
      | Some t \<Rightarrow>
          (let newSegments = segments t in
           if 0 \<le> index \<and> index < int (length newSegments) then
             Inr (Some (t\<lparr>segments :=
               newSegments[nat index :=
                 (newSegments ! nat index)
                   \<lparr>isFavorite := Some (\<not> truthy (isFavorite (newSegments ! nat index)))\<rparr>]\<rparr>))
           else Inl TypeError))"

text \<open>Two clicks on the same bookmark, one after the other.\<close>

definition toggleTwice ::
  "int \<Rightarrow> transcription_response option \<Rightarrow> js_error + transcription_response option" where
  "toggleTwice index transcription =
     (case handleToggleFavorite index transcription of
        Inl e \<Rightarrow> Inl e
      | Inr transcription' \<Rightarrow> handleToggleFavorite index transcription')"

text \<open>The favorites tab: \<open>transcription.segments.filter(s => s.isFavorite)\<close>.\<close>

definition favoriteSegments :: "segment list \<Rightarrow> segment list" where
  "favoriteSegments segs = filter (\<lambda>s. truthy (isFavorite s)) segs"

section \<open>Response parsing (geminiService.ts, cleanAndParseJson)\<close>

text \<open>\<open>s.startsWith(p)\<close> and \<open>s.endsWith(p)\<close>.\<close>

definition startsWith :: "string \<Rightarrow> string \<Rightarrow> bool" where
  "startsWith p s = (take (length p) s = p)"

definition endsWith :: "string \<Rightarrow> string \<Rightarrow> bool" where
  "endsWith p s = (length p \<le> length s \<and> drop (length s - length p) s = p)"

text \<open>The fence marker of Markdown: three grave accents (code unit 0x60).\<close>

definition fence :: string where
  "fence = [CHR 0x60, CHR 0x60, CHR 0x60]"

text \<open>
  The first \<open>replace\<close>: its pattern is anchored at the start of the text and matches the
  fence marker, the four letters \<open>json\<close> and the longest run of whitespace after them.
\<close>

definition stripLeadingFence :: "string \<Rightarrow> string" where
  "stripLeadingFence text =
     (if startsWith (fence @ ''json'') text
      then dropWhile isWhitespace (drop (length (fence @ ''json'')) text)
      else text)"

text \<open>
  The second \<open>replace\<close>: its pattern is anchored at the end of the text, so it matches
  when the text ends with the fence marker, and the leftmost match starts at the run of
  whitespace before that marker.
\<close>

definition stripTrailingFence :: "string \<Rightarrow> string" where
  "stripTrailingFence text =
     (if endsWith fence text
      then rev (dropWhile isWhitespace (rev (take (length text - length fence) text)))
      else text)"

text \<open>
  \<open>JSON.parse\<close> is the first argument: \<open>None\<close> where it throws. Any exception in the
  \<open>try\<close> block is replaced by \<open>new Error("Failed to parse AI response")\<close>.
\<close>

definition cleanAndParseJson :: "(string \<Rightarrow> 'a option) \<Rightarrow> string \<Rightarrow> js_error + 'a" where
  "cleanAndParseJson JSON_parse text =
     (let cleanText = stripTrailingFence (stripLeadingFence text)
      in case JSON_parse cleanText of
           Some v \<Rightarrow> Inr v
         | None \<Rightarrow> Inl (Error ''Failed to parse AI response''))"

text \<open>Whitespace removed at both ends, as \<open>s.trim()\<close> does.\<close>

definition trim_ws :: "string \<Rightarrow> string" where
  "trim_ws s = rev (dropWhile isWhitespace (rev (dropWhile isWhitespace s)))"

section \<open>Word definition with fallback (geminiService.ts, getWordDefinition)\<close>

text \<open>
  The two providers, and the world outside the client: the two credentials of
  \<open>process.env\<close>, the primary provider's \<open>generateContent\<close> (its \<open>response.text\<close>, which
  may be undefined, or a rejection), the \<open>fetch\<close> to the secondary provider (called with
  the key, the system prompt and the user prompt) and \<open>JSON.parse\<close>. A function that
  talks to a provider returns the requests it sent, in order, with its result.
\<close>

datatype provider = Gemini | DeepSeek

text \<open>
  What \<open>callDeepSeek\<close> reads of a response: \<open>ok\<close>, \<open>statusText\<close>, and the outcome of
  \<open>(await response.json()).choices[0].message.content\<close>.
\<close>

record http_response =
  ok :: bool
  statusText :: string
  content :: "js_error + string"

record 'a world =
  API_KEY :: string
  DEEPSEEK_API_KEY :: string
  generateContent :: "string \<Rightarrow> js_error + string option"
  fetchDeepSeek :: "string \<Rightarrow> string \<Rightarrow> string \<Rightarrow> js_error + http_response"
  JSON_parse :: "string \<Rightarrow> 'a option"

definition getAi :: "'a world \<Rightarrow> js_error + unit" where
  "getAi w =
     (if API_KEY w = []
      then Inl (Error ''API Key is missing. Please check your deployment environment variables.'')
      else Inr ())"

definition callDeepSeek :: "'a world \<Rightarrow> string \<Rightarrow> string \<Rightarrow> provider list \<times> (js_error + string)" where
  "callDeepSeek w systemPrompt userPrompt =
     (let deepSeekKey = DEEPSEEK_API_KEY w in
      if deepSeekKey = [] then ([], Inl (Error ''DeepSeek API Key is missing''))
      else ([DeepSeek],
            case fetchDeepSeek w deepSeekKey systemPrompt userPrompt of
              Inl e \<Rightarrow> Inl e
            | Inr response \<Rightarrow>
                if \<not> ok response
                then Inl (Error (''DeepSeek API Error: '' @ statusText response))
                else content response))"

definition definitionPrompt :: "string \<Rightarrow> string \<Rightarrow> string" where
  "definitionPrompt word contextSentence =
     ''Define '' @ [CHR 0x22] @ word @ [CHR 0x22] @ '' in context: '' @ [CHR 0x22] @
     contextSentence @ [CHR 0x22] @
     ''. Return JSON with: word, definition (English), example, phonetic.''"

text \<open>
  The outer \<open>try\<close> block: \<open>getAi()\<close> throws before any request when the primary
  credential is missing; \<open>JSON.parse\<close> of an undefined or malformed text throws a
  SyntaxError.
\<close>

definition geminiAttempt :: "'a world \<Rightarrow> string \<Rightarrow> provider list \<times> (js_error + 'a)" where
  "geminiAttempt w prompt =
     (case getAi w of
        Inl e \<Rightarrow> ([], Inl e)
      | Inr ai \<Rightarrow>
          ([Gemini],
           case generateContent w prompt of
             Inl e \<Rightarrow> Inl e
           | Inr None \<Rightarrow> Inl SyntaxError
           | Inr (Some responseText) \<Rightarrow>
               (case JSON_parse w responseText of
                  None \<Rightarrow> Inl SyntaxError
                | Some v \<Rightarrow> Inr v)))"

text \<open>The inner \<open>try\<close> block.\<close>

definition deepSeekAttempt :: "'a world \<Rightarrow> string \<Rightarrow> provider list \<times> (js_error + 'a)" where
  "deepSeekAttempt w prompt =
     (let systemPrompt = ''You are an English dictionary API. Output purely JSON.'';
          (calls, r) = callDeepSeek w systemPrompt prompt
      in (calls,
          case r of
            Inl e \<Rightarrow> Inl e
          | Inr responseText \<Rightarrow> cleanAndParseJson (JSON_parse w) responseText))"

text \<open>
  \<open>catch (geminiError)\<close>: with a secondary credential the inner block runs and its error,
  if any, is rethrown (\<open>throw deepSeekError\<close>); without one the original error is rethrown
  (\<open>throw geminiError\<close>).
\<close>

definition getWordDefinition ::
  "'a world \<Rightarrow> string \<Rightarrow> string \<Rightarrow> provider list \<times> (js_error + 'a)" where
  "getWordDefinition w word contextSentence =
     (let prompt = definitionPrompt word contextSentence;
          (calls1, r1) = geminiAttempt w prompt
      in case r1 of
           Inr v \<Rightarrow> (calls1, Inr v)
         | Inl geminiError \<Rightarrow>
             if DEEPSEEK_API_KEY w \<noteq> [] then
               (let (calls2, r2) = deepSeekAttempt w prompt
                in (calls1 @ calls2,
                    case r2 of Inr v \<Rightarrow> Inr v | Inl deepSeekError \<Rightarrow> Inl deepSeekError))
             else (calls1, Inl geminiError))"

section \<open>PCM playback (audioUtils.ts, playPcmData)\<close>

text \<open>
  \<open>atob\<close> is the platform's forgiving base64 decoding: ASCII whitespace is removed; when
  the length is then a multiple of 4, one or two \<open>=\<close> at the end are removed; a length
  that leaves remainder 1, or a character outside the alphabet, raises
  InvalidCharacterError; each character gives 6 bits, each 24 bits give 3 bytes, and 12
  or 18 bits left over give 1 or 2 bytes (the last 4 or 2 bits are dropped). The result
  is a binary string, one code unit per byte.
\<close>

definition base64Alphabet :: string where
  "base64Alphabet = ''ABCDEFGHIJKLMNOPQRSTUVWXYZabcdefghijklmnopqrstuvwxyz0123456789+/''"

definition isAsciiWhitespace :: "char \<Rightarrow> bool" where
  "isAsciiWhitespace c = (c \<in> set [CHR 0x09, CHR 0x0A, CHR 0x0C, CHR 0x0D, CHR 0x20])"

fun index_of :: "'a \<Rightarrow> 'a list \<Rightarrow> nat option" where
  "index_of x [] = None"
| "index_of x (y # ys) = (if x = y then Some 0 else map_option Suc (index_of x ys))"

fun sextets :: "string \<Rightarrow> nat list option" where
  "sextets [] = Some []"
| "sextets (c # cs) =
     (case index_of c base64Alphabet of
        None \<Rightarrow> None
      | Some n \<Rightarrow> map_option ((#) n) (sextets cs))"

fun decodeSextets :: "nat list \<Rightarrow> nat list" where
  "decodeSextets (a # b # c # d # rest) =
     (let n = a * 262144 + b * 4096 + c * 64 + d
      in n div 65536 # (n div 256) mod 256 # n mod 256 # decodeSextets rest)"
| "decodeSextets [a, b, c] = (let n = (a * 4096 + b * 64 + c) div 4 in [n div 256, n mod 256])"
| "decodeSextets [a, b] = [(a * 64 + b) div 16]"
| "decodeSextets leftover = []"

definition atob :: "string \<Rightarrow> js_error + string" where
  "atob encoded =
     (let d1 = filter (\<lambda>c. \<not> isAsciiWhitespace c) encoded;
          d2 = (if length d1 mod 4 = 0
                then (if endsWith ''=='' d1 then take (length d1 - 2) d1
                      else if endsWith ''='' d1 then take (length d1 - 1) d1
                      else d1)
                else d1)
      in if length d2 mod 4 = 1 then Inl InvalidCharacterError
         else case sextets d2 of
                None \<Rightarrow> Inl InvalidCharacterError
              | Some ns \<Rightarrow> Inr (map char_of (decodeSextets ns)))"

text \<open>\<open>s.charCodeAt(i)\<close>, on the code unit at position \<open>i\<close>.\<close>

definition charCodeAt :: "char \<Rightarrow> nat" where
  "charCodeAt c = of_char c"

text \<open>
  \<open>new Int16Array(bytes.buffer)\<close>: a view of the bytes as 16-bit signed integers, low
  byte first (the byte order of the platforms that run browsers). The constructor throws
  a RangeError when the byte length is odd; \<open>playPcmData\<close> below checks that.
\<close>

fun int16Array :: "8 word list \<Rightarrow> 16 word list" where
  "int16Array (lo # hi # rest) = (push_bit 8 (ucast hi) OR ucast lo) # int16Array rest"
| "int16Array leftover = []"

text \<open>
  The result is the channel data handed to the audio context: the samples that are
  played. \<open>createBuffer\<close> throws a NotSupportedError for a buffer of length 0. A sample is
  an integer of 16 bits over \<open>2 ^ 15\<close>, which a 32-bit float holds exactly.
\<close>

definition playPcmData :: "string \<Rightarrow> js_error + real list" where
  "playPcmData base64String =
     (case atob base64String of
        Inl e \<Rightarrow> Inl e
      | Inr binaryString \<Rightarrow>
          (let bytes = map (\<lambda>c. of_nat (charCodeAt c)) binaryString :: 8 word list in
           if odd (length bytes) then Inl RangeError
           else (let int16Data = int16Array bytes in
                 if length int16Data = 0 then Inl NotSupportedError
                 else Inr (map (\<lambda>x. real_of_int (sint x) / 32768.0) int16Data))))"

text \<open>
  The \<open>i\<close>-th little-endian signed 16-bit integer of a byte sequence, by arithmetic.
\<close>

definition spec_int16le :: "8 word list \<Rightarrow> nat \<Rightarrow> int" where
  "spec_int16le bytes i =
     (let n = uint (bytes ! (2 * i)) + 256 * uint (bytes ! (2 * i + 1))
      in if n < 32768 then n else n - 65536)"

section \<open>Properties of double rounding\<close>

lemma pow2_powr: "pow2 p = 2 powr (real_of_int p)"
proof (cases "0 \<le> p")
  case True
  then have "real_of_int p = real (nat p)" by simp
  then have "2 powr (real_of_int p) = (2::real) ^ nat p"
    by (simp only: powr_realpow [of 2 "nat p"])
  with True show ?thesis by (simp add: pow2_def)
next
  case False
  then have "real_of_int p = - real (nat (- p))" by simp
  then have "2 powr (real_of_int p) = 1 / (2::real) ^ nat (- p)"
    by (simp add: powr_minus_divide powr_realpow [of 2 "nat (- p)"] del: of_nat_nat)
  with False show ?thesis by (simp add: pow2_def)
qed

lemma bit_length_bounds:
  "0 < k \<Longrightarrow> 2 ^ (bit_length k - 1) \<le> k \<and> k < 2 ^ bit_length k"
proof (induction k rule: bit_length.induct)
  case (1 k)
  have bl: "bit_length k = Suc (bit_length (k div 2))"
    using "1.prems" by (subst bit_length.simps) simp
  show ?case
  proof (cases "k div 2 \<le> 0")
    case True
    with "1.prems" have "k = 1" by simp
    then show ?thesis by (simp add: bit_length.simps)
  next
    case False
    with "1.IH" "1.prems" have ih: "2 ^ (bit_length (k div 2) - 1) \<le> k div 2"
      "k div 2 < 2 ^ bit_length (k div 2)"
      by simp_all
    have pos: "0 < bit_length (k div 2)"
      using False by (subst bit_length.simps) simp
    have "(2::int) ^ (bit_length k - 1) = 2 * 2 ^ (bit_length (k div 2) - 1)"
      using pos bl by (cases "bit_length (k div 2)") simp_all
    also have "\<dots> \<le> 2 * (k div 2)" using ih(1) by simp
    also have "\<dots> \<le> k" by simp
    finally have lo: "2 ^ (bit_length k - 1) \<le> k" .
    have "k < 2 * (k div 2) + 2" by simp
    also have "\<dots> \<le> 2 * 2 ^ bit_length (k div 2)" using ih(2) by simp
    finally have "k < 2 ^ bit_length k" using bl by simp
    with lo show ?thesis by simp
  qed
qed

lemma round_half_even_ge: "real_of_int k \<le> q \<Longrightarrow> k \<le> round_half_even q"
proof -
  assume "real_of_int k \<le> q"
  then have "k \<le> \<lfloor>q\<rfloor>" by (simp add: le_floor_iff)
  then show ?thesis by (simp add: round_half_even_def Let_def)
qed

text \<open>Rounding does not take a difference of at least 2 below 2.\<close>

lemma double_round_ge_2:
  assumes "2 \<le> x"
  shows "2 \<le> double_round x"
proof -
  let ?n = "\<lfloor>x\<rfloor>"
  let ?e = "binary_exponent x"
  have n2: "2 \<le> ?n" using assms by (simp add: le_floor_iff)
  then have bnd: "2 ^ (bit_length ?n - 1) \<le> ?n" "?n < 2 ^ bit_length ?n"
    using bit_length_bounds [of ?n] by simp_all
  have bl2: "2 \<le> bit_length ?n"
  proof (rule ccontr)
    assume "\<not> 2 \<le> bit_length ?n"
    then have "bit_length ?n \<le> 1" by simp
    then have "(2::int) ^ bit_length ?n \<le> 2 ^ 1" by (intro power_increasing) simp_all
    then have "(2::int) ^ bit_length ?n \<le> 2" by simp
    with bnd(2) n2 show False by linarith
  qed
  have e: "?e = int (bit_length ?n) - 1"
    using assms by (simp add: binary_exponent_def)
  then have e1: "1 \<le> ?e" using bl2 by simp
  have "real_of_int (2 ^ (bit_length ?n - 1)) \<le> real_of_int ?n"
    using bnd(1) by (simp only: of_int_le_iff)
  also have "real_of_int ?n \<le> x" by simp
  finally have "2 ^ (bit_length ?n - 1) \<le> x" by simp
  moreover have "(2::real) ^ (bit_length ?n - 1) = pow2 ?e"
    using e bl2 by (simp add: pow2_def nat_diff_distrib')
  ultimately have lo: "pow2 ?e \<le> x" by simp
  let ?p = "?e - 52"
  have ppos: "0 < pow2 ?p" by (simp add: pow2_powr)
  have split: "pow2 ?e = 2 ^ 52 * pow2 ?p"
  proof -
    have "pow2 ?e = 2 powr (52 + real_of_int ?p)" by (simp add: pow2_powr)
    also have "\<dots> = 2 powr 52 * 2 powr (real_of_int ?p)" by (rule powr_add)
    also have "(2::real) powr 52 = 2 ^ 52" by (simp add: powr_realpow [symmetric])
    finally show ?thesis by (simp add: pow2_powr)
  qed
  have "real_of_int (2 ^ 52) \<le> x / pow2 ?p"
    using lo ppos split by (simp add: pos_le_divide_eq)
  then have "2 ^ 52 \<le> round_half_even (x / pow2 ?p)"
    by (rule round_half_even_ge)
  then have "real_of_int (2 ^ 52) \<le> real_of_int (round_half_even (x / pow2 ?p))"
    by (simp only: of_int_le_iff)
  then have "2 ^ 52 * pow2 ?p \<le> real_of_int (round_half_even (x / pow2 ?p)) * pow2 ?p"
    using ppos by simp
  then have "pow2 ?e \<le> real_of_int (round_half_even (x / pow2 ?p)) * pow2 ?p"
    using split by simp
  moreover have "2 \<le> pow2 ?e"
  proof -
    have "(2::real) ^ 1 \<le> 2 ^ nat ?e" using e1 by (intro power_increasing) simp_all
    then show ?thesis using e1 by (simp add: pow2_def)
  qed
  moreover have "double_round x = real_of_int (round_half_even (x / pow2 ?p)) * pow2 ?p"
    using assms e1 by (simp add: double_round_def Let_def max_def)
  ultimately show ?thesis by simp
qed

lemma js_sub_ge_2: "2 \<le> a - b \<Longrightarrow> \<not> js_sub a b < 2"
  using double_round_ge_2 [of "a - b"] by (simp add: js_sub_def)

text \<open>
  Differences of doubles: four that are doubles themselves, and that of the doubles
  nearest to 2.13 and 0.13, which is \<open>2 - 2^-53\<close>, half-way between two doubles,
  and rounds to 2.
\<close>

lemma js_sub_1_0: "js_sub 1 0 = 1"
  by code_simp

lemma js_sub_15_0: "js_sub 1.5 0 = 1.5" "js_sub (3 / 2) 0 = 3 / 2"
  by code_simp+

lemma js_sub_2_15: "js_sub 2 1.5 = 0.5" "js_sub 2 (3 / 2) = 1 / 2"
  by code_simp+

lemma js_sub_6_15: "js_sub 6 1.5 = 4.5" "js_sub 6 (3 / 2) = 9 / 2"
  by code_simp+

lemma js_sub_rounds_up:
  "js_sub (2398166801574789 / 1125899906842624) (1170935903116329 / 9007199254740992) = 2"
  by code_simp

section \<open>Properties of the segment merger\<close>

text \<open>
  The number of pieces that \<open>split\<close> gives, against the number of words: the
  non-empty pieces are the words. The empty text has one (empty) piece, and whitespace
  at the start or at the end of a text adds an empty piece. A text that is not empty
  and has no whitespace at either end has no empty piece: its pieces are its words.
\<close>

lemma count_words_skip:
  "count_words False (dropWhile isWhitespace cs) = count_words False cs"
  by (induction cs) simp_all

lemma splitWhitespace_words:
  "length (filter (\<lambda>w. w \<noteq> []) (splitWhitespace tok s)) =
     (if tok \<noteq> [] then 1 else 0) + count_words (tok \<noteq> []) s"
proof (induction tok s rule: splitWhitespace.induct)
  case (1 tok)
  show ?case by simp
next
  case (2 tok c cs)
  show ?case
  proof (cases "isWhitespace c")
    case True
    with 2 show ?thesis by (simp add: count_words_skip)
  next
    case False
    with 2 show ?thesis by simp
  qed
qed

lemma split_ws_words: "length (filter (\<lambda>w. w \<noteq> []) (split_ws s)) = spec_wordCount s"
  by (simp add: split_ws_def spec_wordCount_def splitWhitespace_words)

lemma spec_wordCount_le: "spec_wordCount s \<le> length (split_ws s)"
  using length_filter_le [of "\<lambda>w. w \<noteq> []" "split_ws s"] by (simp only: split_ws_words)

lemma split_ws_edges:
  "split_ws [] = [[]] \<and>
   split_ws '' a b c'' = [[], ''a'', ''b'', ''c''] \<and>
   split_ws ''a b c '' = [''a'', ''b'', ''c'', []] \<and>
   split_ws ''a  b'' = [''a'', ''b'']"
  by (simp add: split_ws_def isWhitespace_def)

lemma splitWhitespace_no_empty:
  assumes "tok \<noteq> [] \<or> (s \<noteq> [] \<and> \<not> isWhitespace (hd s))"
    and "s = [] \<or> \<not> isWhitespace (last s)"
  shows "[] \<notin> set (splitWhitespace tok s)"
  using assms
proof (induction tok s rule: splitWhitespace.induct)
  case (1 tok)
  then show ?case by simp
next
  case (2 tok c cs)
  show ?case
  proof (cases "isWhitespace c")
    case True
    with "2.prems" have tok: "tok \<noteq> []" and cs: "cs \<noteq> []" and l: "\<not> isWhitespace (last cs)"
      by (auto split: if_splits)
    let ?d = "dropWhile isWhitespace cs"
    have "last cs \<in> set cs" using cs by simp
    with l have d: "?d \<noteq> []"
      by (auto simp: dropWhile_eq_Nil_conv)
    then have "\<not> isWhitespace (hd ?d)"
      by (rule hd_dropWhile)
    moreover have "last ?d = last cs"
      using d by (metis append_Nil2 last_appendR takeWhile_dropWhile_id)
    ultimately have "[] \<notin> set (splitWhitespace [] ?d)"
      using "2.IH"(1) [OF True] d l by simp
    with True tok show ?thesis by simp
  next
    case False
    have "cs = [] \<or> \<not> isWhitespace (last cs)"
      using "2.prems"(2) by (auto split: if_splits)
    with "2.IH"(2) [OF False] False show ?thesis by simp
  qed
qed

lemma split_ws_no_empty_word: "no_edge_whitespace s \<Longrightarrow> [] \<notin> set (split_ws s)"
  by (simp add: no_edge_whitespace_def split_ws_def splitWhitespace_no_empty)

lemma split_ws_count: "no_edge_whitespace s \<Longrightarrow> length (split_ws s) = spec_wordCount s"
proof -
  assume "no_edge_whitespace s"
  then have "filter (\<lambda>w. w \<noteq> []) (split_ws s) = split_ws s"
    using split_ws_no_empty_word [of s] by (auto simp: filter_id_conv)
  then show ?thesis
    using split_ws_words [of s] by simp
qed

text \<open>The loop computes the fold whose test is the condition of its \<open>if\<close>.\<close>

lemma mergeLoop_step:
  assumes "i < length segs"
  shows "mergeLoop segs i current merged =
           (if shouldMerge current
            then mergeLoop segs (Suc i) (spec_merge current (segs ! i)) merged
            else mergeLoop segs (Suc i) (segs ! i) (merged @ [current]))"
proof -
  have upd: "current\<lparr>end_seg := e, text_seg := t, translation := tr, idiomatic := idi\<rparr> =
               \<lparr>start = start current, end_seg = e, text_seg = t, translation = tr,
                idiomatic = idi, isFavorite = isFavorite current\<rparr>" for e t tr idi
    by simp
  show ?thesis
    using assms
    by (subst mergeLoop.simps)
       (simp add: Let_def shouldMerge_def spec_merge_def upd del: segment.simps)
qed

lemma mergeLoop_done: "length segs \<le> i \<Longrightarrow> mergeLoop segs i current merged = merged @ [current]"
  by (subst mergeLoop.simps) simp

lemma mergeLoop_fold:
  "i \<le> length segs \<Longrightarrow>
     mergeLoop segs i current merged =
       fold_commit (foldl (fold_step shouldMerge) (merged, current) (drop i segs))"
proof (induction "length segs - i" arbitrary: i current merged)
  case 0
  then show ?case by (simp add: mergeLoop_done fold_commit_def)
next
  case (Suc n)
  then have lt: "i < length segs" and le: "Suc i \<le> length segs" and n: "n = length segs - Suc i"
    by simp_all
  have dr: "drop i segs = segs ! i # drop (Suc i) segs"
    using lt by (simp add: Cons_nth_drop_Suc)
  show ?case
    by (simp add: mergeLoop_step [OF lt] dr Suc.hyps(1) [OF n le])
qed

lemma mergeShortSegments_Cons:
  "mergeShortSegments (first # rest) =
     fold_commit (foldl (fold_step shouldMerge) ([], first) rest)"
  by (simp add: mergeShortSegments_def mergeLoop_fold)

lemma mergeShortSegments_fold: "mergeShortSegments segs = fold_merger shouldMerge segs"
proof (cases segs)
  case Nil
  then show ?thesis by (simp add: fold_merger_def mergeShortSegments_def)
next
  case (Cons first rest)
  then show ?thesis by (simp add: fold_merger_def mergeShortSegments_Cons)
qed

text \<open>What the fold keeps, whatever its test.\<close>

lemma join_space_Cons: "join_space (x # xs) = (if xs = [] then x else x @ '' '' @ join_space xs)"
  by (cases xs) simp_all

lemma join_space_merge_point:
  "join_space (xs @ (a @ '' '' @ b) # ys) = join_space (xs @ a # b # ys)"
  by (induction xs) (simp_all add: join_space_Cons)

lemma fold_texts:
  "join_space (map text_seg (fold_commit (foldl (fold_step short) (out, acc) rest))) =
     join_space (map text_seg (out @ acc # rest))"
proof (induction rest arbitrary: out acc)
  case Nil
  show ?case by (simp add: fold_commit_def)
next
  case (Cons nxt rest)
  show ?case
  proof (cases "short acc")
    case True
    have "text_seg (spec_merge acc nxt) = text_seg acc @ '' '' @ text_seg nxt"
      by (simp add: spec_merge_def)
    then show ?thesis
      using True Cons.IH [of out "spec_merge acc nxt"]
        join_space_merge_point [of "map text_seg out" "text_seg acc" "text_seg nxt" "map text_seg rest"]
      by simp
  next
    case False
    then show ?thesis using Cons.IH [of "out @ [acc]" nxt] by simp
  qed
qed

lemma fold_length:
  "length (fold_commit (foldl (fold_step short) (out, acc) rest)) \<le> length out + 1 + length rest"
proof (induction rest arbitrary: out acc)
  case Nil
  show ?case by (simp add: fold_commit_def)
next
  case (Cons nxt rest)
  show ?case
    using Cons.IH [of out "spec_merge acc nxt"] Cons.IH [of "out @ [acc]" nxt]
    by (cases "short acc") simp_all
qed

lemma fold_last_end:
  "end_seg (snd (foldl (fold_step short) (out, acc) rest)) = end_seg (last (acc # rest))"
proof (induction rest arbitrary: out acc)
  case Nil
  show ?case by simp
next
  case (Cons nxt rest)
  have "end_seg (last (spec_merge acc nxt # rest)) = end_seg (last (nxt # rest))"
    by (simp add: spec_merge_def)
  then show ?case
    using Cons.IH [of out "spec_merge acc nxt"] Cons.IH [of "out @ [acc]" nxt]
    by (cases "short acc") simp_all
qed

lemma fold_no_merge:
  "\<forall>s \<in> set (acc # rest). \<not> short s \<Longrightarrow>
     fold_commit (foldl (fold_step short) (out, acc) rest) = out @ acc # rest"
proof (induction rest arbitrary: out acc)
  case Nil
  show ?case by (simp add: fold_commit_def)
next
  case (Cons nxt rest)
  then show ?case using Cons.IH [of nxt "out @ [acc]"] by simp
qed

lemma join_space_snoc: "xs \<noteq> [] \<Longrightarrow> join_space (xs @ [y]) = join_space xs @ '' '' @ y"
  by (induction xs) (simp_all add: join_space_Cons)

text \<open>
  The output texts are the single-space joins of consecutive non-empty groups of the
  input: \<open>gs\<close> are the groups already committed and \<open>g\<close> is the group held in the
  accumulator.
\<close>

lemma fold_groups:
  assumes "map text_seg out = map (\<lambda>g. join_space (map text_seg g)) gs"
    and "[] \<notin> set gs" and "g \<noteq> []" and "text_seg acc = join_space (map text_seg g)"
  shows "\<exists>gs'. concat gs' = concat gs @ g @ rest \<and> [] \<notin> set gs' \<and>
           map text_seg (fold_commit (foldl (fold_step short) (out, acc) rest)) =
             map (\<lambda>g. join_space (map text_seg g)) gs'"
  using assms
proof (induction rest arbitrary: out acc gs g)
  case Nil
  then have "concat (gs @ [g]) = concat gs @ g @ [] \<and> [] \<notin> set (gs @ [g]) \<and>
      map text_seg (fold_commit (foldl (fold_step short) (out, acc) [])) =
        map (\<lambda>g. join_space (map text_seg g)) (gs @ [g])"
    by (simp add: fold_commit_def)
  then show ?case by blast
next
  case (Cons nxt rest)
  show ?case
  proof (cases "short acc")
    case True
    have "text_seg (spec_merge acc nxt) = join_space (map text_seg (g @ [nxt]))"
      using Cons.prems(3,4) by (simp add: spec_merge_def join_space_snoc)
    moreover have "g @ [nxt] \<noteq> []"
      by simp
    ultimately obtain gs' where "concat gs' = concat gs @ (g @ [nxt]) @ rest"
      "[] \<notin> set gs'"
      "map text_seg (fold_commit (foldl (fold_step short) (out, spec_merge acc nxt) rest)) =
         map (\<lambda>g. join_space (map text_seg g)) gs'"
      using Cons.IH [of out gs "g @ [nxt]" "spec_merge acc nxt"] Cons.prems(1,2) by blast
    with True show ?thesis by auto
  next
    case False
    have "map text_seg (out @ [acc]) = map (\<lambda>g. join_space (map text_seg g)) (gs @ [g])"
      using Cons.prems(1,4) by simp
    moreover have "[] \<notin> set (gs @ [g])"
      using Cons.prems(2,3) by simp
    moreover have "text_seg nxt = join_space (map text_seg [nxt])"
      by simp
    ultimately obtain gs' where "concat gs' = concat (gs @ [g]) @ [nxt] @ rest"
      "[] \<notin> set gs'"
      "map text_seg (fold_commit (foldl (fold_step short) (out @ [acc], nxt) rest)) =
         map (\<lambda>g. join_space (map text_seg g)) gs'"
      using Cons.IH [of "out @ [acc]" "gs @ [g]" "[nxt]" nxt] by blast
    with False show ?thesis by auto
  qed
qed

lemma not_shouldMerge:
  "MIN_WORDS \<le> length (split_ws (text_seg s)) \<or> 2 \<le> end_seg s - start s \<Longrightarrow> \<not> shouldMerge s"
  using js_sub_ge_2 [of "end_seg s" "start s"] by (auto simp: shouldMerge_def)

text \<open>
  On texts without whitespace at their ends the condition of the loop is the test of
  the specification, and merging keeps such texts.
\<close>

lemma shouldMerge_spec:
  "no_edge_whitespace (text_seg c) \<Longrightarrow> shouldMerge c = spec_below_threshold c"
  by (simp add: shouldMerge_def spec_below_threshold_def split_ws_count MIN_WORDS_def)

lemma no_edge_whitespace_merge:
  assumes "no_edge_whitespace (text_seg a)" and "no_edge_whitespace (text_seg b)"
  shows "no_edge_whitespace (text_seg (spec_merge a b))"
  using assms by (simp add: no_edge_whitespace_def spec_merge_def)

lemma fold_agree:
  assumes "\<forall>s \<in> set (acc # rest). no_edge_whitespace (text_seg s)"
  shows "foldl (fold_step shouldMerge) (out, acc) rest =
           foldl (fold_step spec_below_threshold) (out, acc) rest"
  using assms
proof (induction rest arbitrary: out acc)
  case Nil
  show ?case by simp
next
  case (Cons nxt rest)
  then have acc: "no_edge_whitespace (text_seg acc)" and nxt: "no_edge_whitespace (text_seg nxt)"
    and rest: "\<forall>s \<in> set rest. no_edge_whitespace (text_seg s)"
    by simp_all
  have test: "shouldMerge acc = spec_below_threshold acc"
    using acc by (rule shouldMerge_spec)
  show ?case
  proof (cases "spec_below_threshold acc")
    case True
    have "\<forall>s \<in> set (spec_merge acc nxt # rest). no_edge_whitespace (text_seg s)"
      using no_edge_whitespace_merge [OF acc nxt] rest by simp
    from Cons.IH [OF this, of out] True test show ?thesis by simp
  next
    case False
    have "\<forall>s \<in> set (nxt # rest). no_edge_whitespace (text_seg s)"
      using nxt rest by simp
    from Cons.IH [OF this, of "out @ [acc]"] False test show ?thesis by simp
  qed
qed

text \<open>
  Claim C4, as the code has it. On segments whose texts are not empty and have no
  whitespace at either end, the merger is the left-to-right fold of the specification:
  the accumulator starts at the first segment; while it has fewer than 4 words and its
  duration, the difference \<open>end - start\<close> as double arithmetic rounds it, is below 2.0,
  it absorbs the next segment (its \<open>end\<close> becomes the next one's, text and translation
  are joined with one space, the next idiomatic string wins unless it is empty);
  otherwise it is committed and the next segment becomes the accumulator; the last
  accumulator is always committed. On every input, the empty list gives the empty list
  and a one-segment list comes back unchanged.
\<close>

theorem mergeShortSegments_is_spec_fold:
  "((\<forall>s \<in> set segs. no_edge_whitespace (text_seg s)) \<longrightarrow>
      mergeShortSegments segs = spec_merger segs) \<and>
   mergeShortSegments [] = [] \<and>
   mergeShortSegments [s] = [s]"
proof -
  have fold: "mergeShortSegments segs = spec_merger segs"
    if clean: "\<forall>s \<in> set segs. no_edge_whitespace (text_seg s)"
  proof (cases segs)
    case Nil
    then show ?thesis by (simp add: mergeShortSegments_def spec_merger_def fold_merger_def)
  next
    case (Cons first rest)
    with clean have "\<forall>s \<in> set (first # rest). no_edge_whitespace (text_seg s)"
      by simp
    from fold_agree [OF this, of "[]"] show ?thesis
      unfolding Cons by (simp add: mergeShortSegments_Cons spec_merger_def fold_merger_def)
  qed
  have "mergeShortSegments [] = []" "mergeShortSegments [s] = [s]"
    by (simp_all add: mergeShortSegments_fold fold_merger_def fold_commit_def)
  with fold show ?thesis by simp
qed

theorem mergeShortSegments_is_spec_fold_witness:
  "no_edge_whitespace ''Okay now'' \<and> no_edge_whitespace ''I want to share'' \<and>
   no_edge_whitespace ''a b'' \<and> no_edge_whitespace ''bye'' \<and> no_edge_whitespace ''end'' \<and>
   mergeShortSegments
     [\<lparr>start = 0, end_seg = 1, text_seg = ''Okay now'', translation = ''a'', idiomatic = ''x'',
       isFavorite = None\<rparr>,
      \<lparr>start = 1, end_seg = 1.5, text_seg = ''I want to share'', translation = ''b'',
       idiomatic = [], isFavorite = None\<rparr>,
      \<lparr>start = 1.5, end_seg = 2, text_seg = ''a b'', translation = ''c'', idiomatic = ''y'',
       isFavorite = None\<rparr>,
      \<lparr>start = 2, end_seg = 6, text_seg = ''bye'', translation = ''d'', idiomatic = ''z'',
       isFavorite = None\<rparr>,
      \<lparr>start = 6, end_seg = 7, text_seg = ''end'', translation = ''e'', idiomatic = ''w'',
       isFavorite = None\<rparr>] =
     [\<lparr>start = 0, end_seg = 1.5, text_seg = ''Okay now I want to share'', translation = ''a b'',
       idiomatic = ''x'', isFavorite = None\<rparr>,
      \<lparr>start = 1.5, end_seg = 6, text_seg = ''a b bye'', translation = ''c d'',
       idiomatic = ''z'', isFavorite = None\<rparr>,
      \<lparr>start = 6, end_seg = 7, text_seg = ''end'', translation = ''e'', idiomatic = ''w'',
       isFavorite = None\<rparr>]"
proof -
  let ?input =
    "[\<lparr>start = 0, end_seg = 1, text_seg = ''Okay now'', translation = ''a'', idiomatic = ''x'',
       isFavorite = None\<rparr>,
      \<lparr>start = 1, end_seg = 1.5, text_seg = ''I want to share'', translation = ''b'',
       idiomatic = [], isFavorite = None\<rparr>,
      \<lparr>start = 1.5, end_seg = 2, text_seg = ''a b'', translation = ''c'', idiomatic = ''y'',
       isFavorite = None\<rparr>,
      \<lparr>start = 2, end_seg = 6, text_seg = ''bye'', translation = ''d'', idiomatic = ''z'',
       isFavorite = None\<rparr>,
      \<lparr>start = 6, end_seg = 7, text_seg = ''end'', translation = ''e'', idiomatic = ''w'',
       isFavorite = None\<rparr>]"
  have texts: "no_edge_whitespace ''Okay now''" "no_edge_whitespace ''I want to share''"
    "no_edge_whitespace ''a b''" "no_edge_whitespace ''bye''" "no_edge_whitespace ''end''"
    by (simp_all add: no_edge_whitespace_def isWhitespace_def)
  then have pre: "\<forall>s \<in> set ?input. no_edge_whitespace (text_seg s)"
    by simp
  have words: "spec_wordCount ''Okay now'' = 2" "spec_wordCount ''Okay now I want to share'' = 6"
    "spec_wordCount ''a b'' = 2" "spec_wordCount ''a b bye'' = 3"
    by (simp_all add: spec_wordCount_def isWhitespace_def)
  have run: "spec_merger ?input =
     [\<lparr>start = 0, end_seg = 1.5, text_seg = ''Okay now I want to share'', translation = ''a b'',
       idiomatic = ''x'', isFavorite = None\<rparr>,
      \<lparr>start = 1.5, end_seg = 6, text_seg = ''a b bye'', translation = ''c d'',
       idiomatic = ''z'', isFavorite = None\<rparr>,
      \<lparr>start = 6, end_seg = 7, text_seg = ''end'', translation = ''e'', idiomatic = ''w'',
       isFavorite = None\<rparr>]"
    by (simp add: spec_merger_def fold_merger_def fold_commit_def spec_below_threshold_def
        spec_merge_def words js_sub_1_0 js_sub_15_0 js_sub_2_15 js_sub_6_15)
  from mergeShortSegments_is_spec_fold [of ?input] pre
  have "mergeShortSegments ?input = spec_merger ?input"
    by blast
  with run texts show ?thesis
    by simp
qed

text \<open>
  The claim as the specification states it fails at two inputs. An accumulator from
  0.13 to 2.13 (the doubles nearest to them) has 1 word and its end is less than 2.0
  after its start, and it is committed: the difference of the two doubles rounds to
  2.0, as double arithmetic has it. An accumulator with the text "so then okay " (a
  space at its end) has 3 words and lasts 1 second, and it is committed: \<open>split\<close> gives
  a fourth, empty piece there.
\<close>

theorem merge_condition_counterexample:
  "spec_wordCount ''Hi'' < 4 \<and>
   (2398166801574789 / 1125899906842624 :: real) - 1170935903116329 / 9007199254740992 < 2 \<and>
   mergeShortSegments
     [\<lparr>start = 1170935903116329 / 9007199254740992,
       end_seg = 2398166801574789 / 1125899906842624, text_seg = ''Hi'', translation = ''a'',
       idiomatic = ''x'', isFavorite = None\<rparr>,
      \<lparr>start = 3, end_seg = 4, text_seg = ''there'', translation = ''b'', idiomatic = ''y'',
       isFavorite = None\<rparr>] =
     [\<lparr>start = 1170935903116329 / 9007199254740992,
       end_seg = 2398166801574789 / 1125899906842624, text_seg = ''Hi'', translation = ''a'',
       idiomatic = ''x'', isFavorite = None\<rparr>,
      \<lparr>start = 3, end_seg = 4, text_seg = ''there'', translation = ''b'', idiomatic = ''y'',
       isFavorite = None\<rparr>] \<and>
   spec_wordCount ''so then okay '' = 3 \<and> (1::real) - 0 < 2 \<and>
   mergeShortSegments
     [\<lparr>start = 0, end_seg = 1, text_seg = ''so then okay '', translation = ''a'',
       idiomatic = ''x'', isFavorite = None\<rparr>,
      \<lparr>start = 1, end_seg = 2, text_seg = ''there'', translation = ''b'', idiomatic = ''y'',
       isFavorite = None\<rparr>] =
     [\<lparr>start = 0, end_seg = 1, text_seg = ''so then okay '', translation = ''a'',
       idiomatic = ''x'', isFavorite = None\<rparr>,
      \<lparr>start = 1, end_seg = 2, text_seg = ''there'', translation = ''b'', idiomatic = ''y'',
       isFavorite = None\<rparr>]"
proof -
  have words: "spec_wordCount ''Hi'' < 4" "spec_wordCount ''so then okay '' = 3"
    by (simp_all add: spec_wordCount_def isWhitespace_def)
  have pieces: "length (split_ws ''so then okay '') = 4"
    by (simp add: split_ws_def isWhitespace_def)
  have rounded: "mergeShortSegments
     [\<lparr>start = 1170935903116329 / 9007199254740992,
       end_seg = 2398166801574789 / 1125899906842624, text_seg = ''Hi'', translation = ''a'',
       idiomatic = ''x'', isFavorite = None\<rparr>,
      \<lparr>start = 3, end_seg = 4, text_seg = ''there'', translation = ''b'', idiomatic = ''y'',
       isFavorite = None\<rparr>] =
     [\<lparr>start = 1170935903116329 / 9007199254740992,
       end_seg = 2398166801574789 / 1125899906842624, text_seg = ''Hi'', translation = ''a'',
       idiomatic = ''x'', isFavorite = None\<rparr>,
      \<lparr>start = 3, end_seg = 4, text_seg = ''there'', translation = ''b'', idiomatic = ''y'',
       isFavorite = None\<rparr>]"
    by (simp add: mergeShortSegments_def mergeLoop.simps js_sub_rounds_up)
  have counted: "mergeShortSegments
     [\<lparr>start = 0, end_seg = 1, text_seg = ''so then okay '', translation = ''a'',
       idiomatic = ''x'', isFavorite = None\<rparr>,
      \<lparr>start = 1, end_seg = 2, text_seg = ''there'', translation = ''b'', idiomatic = ''y'',
       isFavorite = None\<rparr>] =
     [\<lparr>start = 0, end_seg = 1, text_seg = ''so then okay '', translation = ''a'',
       idiomatic = ''x'', isFavorite = None\<rparr>,
      \<lparr>start = 1, end_seg = 2, text_seg = ''there'', translation = ''b'', idiomatic = ''y'',
       isFavorite = None\<rparr>]"
    by (simp add: mergeShortSegments_def mergeLoop.simps pieces MIN_WORDS_def)
  from words rounded counted show ?thesis
    by simp
qed

text \<open>
  Claim C5. On the three segments \<open>{0, 1, "Hi"}\<close>, \<open>{1, 1.5, "there"}\<close> and
  \<open>{1.5, 4, "welcome to the show today"}\<close>, whatever their other fields: the first has
  1 token and lasts 1 s, so the first pass of the loop merges it with the second; the
  accumulator then reads "Hi there", has 2 tokens and lasts 1.5 s, so the second pass
  merges it with the third; the output is the one segment from 0 to 4 with the text
  "Hi there welcome to the show today".
\<close>

theorem mergeShortSegments_hi_there:
  "(let s1 = \<lparr>start = 0, end_seg = 1, text_seg = ''Hi'', translation = t1, idiomatic = i1,
               isFavorite = f1\<rparr>;
        s2 = \<lparr>start = 1, end_seg = 1.5, text_seg = ''there'', translation = t2, idiomatic = i2,
               isFavorite = f2\<rparr>;
        s3 = \<lparr>start = 1.5, end_seg = 4, text_seg = ''welcome to the show today'',
               translation = t3, idiomatic = i3, isFavorite = f3\<rparr>;
        input = [s1, s2, s3];
        s12 = \<lparr>start = 0, end_seg = 1.5, text_seg = ''Hi there'', translation = t1 @ '' '' @ t2,
                idiomatic = (if i2 \<noteq> [] then i2 else i1), isFavorite = f1\<rparr>;
        s123 = \<lparr>start = 0, end_seg = 4, text_seg = ''Hi there welcome to the show today'',
                 translation = t1 @ '' '' @ t2 @ '' '' @ t3,
                 idiomatic = (if i3 \<noteq> [] then i3 else if i2 \<noteq> [] then i2 else i1),
                 isFavorite = f1\<rparr>
    in length (split_ws (text_seg s1)) = 1 \<and> end_seg s1 - start s1 = 1 \<and>
       js_sub (end_seg s1) (start s1) = 1 \<and>
       mergeLoop input 1 s1 [] = mergeLoop input 2 s12 [] \<and>
       length (split_ws (text_seg s12)) = 2 \<and> end_seg s12 - start s12 = 1.5 \<and>
       js_sub (end_seg s12) (start s12) = 1.5 \<and>
       mergeLoop input 2 s12 [] = mergeLoop input 3 s123 [] \<and>
       mergeShortSegments input = [s123] \<and>
       length (mergeShortSegments input) = 1)"
proof -
  have tok: "length (split_ws ''Hi'') = 1" "length (split_ws ''Hi there'') = 2"
    by (simp_all add: split_ws_def isWhitespace_def)
  show ?thesis
    unfolding Let_def mergeShortSegments_def
    by (simp add: tok mergeLoop.simps MIN_WORDS_def js_sub_1_0 js_sub_15_0)
qed

text \<open>
  Claim C2. For every non-empty list of segments the merger's output is non-empty and
  keeps the partition: the output texts joined with single spaces are the input texts
  joined with single spaces (each output text is itself the single-space join of a
  consecutive, non-empty group of input texts, and the groups concatenate to the input);
  the output is no longer than the input; and the last output segment ends where the
  last input segment ends.
\<close>

theorem mergeShortSegments_partition_preserving:
  assumes "segs \<noteq> []"
  shows "mergeShortSegments segs \<noteq> [] \<and>
         join_space (map text_seg (mergeShortSegments segs)) = join_space (map text_seg segs) \<and>
         (\<exists>groups. concat groups = segs \<and> [] \<notin> set groups \<and>
            map text_seg (mergeShortSegments segs) =
              map (\<lambda>g. join_space (map text_seg g)) groups) \<and>
         length (mergeShortSegments segs) \<le> length segs \<and>
         end_seg (last (mergeShortSegments segs)) = end_seg (last segs)"
proof -
  from assms obtain first rest where segs: "segs = first # rest"
    by (cases segs) auto
  let ?out = "mergeShortSegments (first # rest)"
  have out: "?out = fold_commit (foldl (fold_step shouldMerge) ([], first) rest)"
    by (rule mergeShortSegments_Cons)
  have nonempty: "?out \<noteq> []"
    by (simp add: out fold_commit_def)
  have texts: "join_space (map text_seg ?out) = join_space (map text_seg (first # rest))"
    unfolding out using fold_texts [of shouldMerge "[]" first rest] by simp
  have groups: "\<exists>groups. concat groups = first # rest \<and> [] \<notin> set groups \<and>
      map text_seg ?out = map (\<lambda>g. join_space (map text_seg g)) groups"
    unfolding out using fold_groups [of "[]" "[]" "[first]" first rest shouldMerge] by simp
  have len: "length ?out \<le> length (first # rest)"
    unfolding out using fold_length [of shouldMerge "[]" first rest] by simp
  have "last ?out = snd (foldl (fold_step shouldMerge) ([], first) rest)"
    unfolding out by (simp add: fold_commit_def)
  then have last_end: "end_seg (last ?out) = end_seg (last (first # rest))"
    using fold_last_end [of shouldMerge "[]" first rest] by simp
  from nonempty texts groups len last_end show ?thesis
    unfolding segs by blast
qed

theorem mergeShortSegments_partition_preserving_witness:
  "(let input = [\<lparr>start = 0, end_seg = 1, text_seg = ''Okay now'', translation = ''a'',
                   idiomatic = ''x'', isFavorite = None\<rparr>,
                 \<lparr>start = 1, end_seg = 5, text_seg = ''I want to share'', translation = ''b'',
                   idiomatic = [], isFavorite = None\<rparr>,
                 \<lparr>start = 5, end_seg = 6, text_seg = ''bye'', translation = ''c'',
                   idiomatic = ''z'', isFavorite = None\<rparr>]
    in input \<noteq> [] \<and>
       join_space (map text_seg (mergeShortSegments input)) = ''Okay now I want to share bye'' \<and>
       length (mergeShortSegments input) \<le> 3 \<and>
       end_seg (last (mergeShortSegments input)) = 6)"
  using mergeShortSegments_partition_preserving
    [of "[\<lparr>start = 0, end_seg = 1, text_seg = ''Okay now'', translation = ''a'',
            idiomatic = ''x'', isFavorite = None\<rparr>,
          \<lparr>start = 1, end_seg = 5, text_seg = ''I want to share'', translation = ''b'',
            idiomatic = [], isFavorite = None\<rparr>,
          \<lparr>start = 5, end_seg = 6, text_seg = ''bye'', translation = ''c'',
            idiomatic = ''z'', isFavorite = None\<rparr>]"]
  by (simp add: Let_def)

text \<open>
  Claim C6. On a list in which no segment is below the merge threshold (each has at
  least 4 tokens or lasts at least 2.0 s) the merger changes nothing, so running it
  twice gives what running it once gives.
\<close>

theorem mergeShortSegments_idempotent_above_threshold:
  assumes "\<forall>s \<in> set segs. MIN_WORDS \<le> length (split_ws (text_seg s)) \<or> 2 \<le> end_seg s - start s"
  shows "mergeShortSegments (mergeShortSegments segs) = mergeShortSegments segs \<and>
         mergeShortSegments segs = segs"
proof -
  have same: "mergeShortSegments segs = segs"
  proof (cases segs)
    case Nil
    then show ?thesis by (simp add: mergeShortSegments_def)
  next
    case (Cons first rest)
    with assms have "\<forall>s \<in> set (first # rest). \<not> shouldMerge s"
      using not_shouldMerge by blast
    then have "fold_commit (foldl (fold_step shouldMerge) ([], first) rest) = first # rest"
      using fold_no_merge [of first rest shouldMerge "[]"] by simp
    then show ?thesis
      unfolding Cons by (simp add: mergeShortSegments_Cons)
  qed
  then show ?thesis by simp
qed

theorem mergeShortSegments_idempotent_above_threshold_witness:
  "MIN_WORDS \<le> length (split_ws ''I want to share'') \<and> (2::real) \<le> 3.5 - 1 \<and>
   mergeShortSegments (mergeShortSegments
     [\<lparr>start = 0, end_seg = 1, text_seg = ''I want to share'', translation = ''a'',
       idiomatic = ''x'', isFavorite = None\<rparr>,
      \<lparr>start = 1, end_seg = 3.5, text_seg = ''No'', translation = ''b'',
       idiomatic = [], isFavorite = None\<rparr>]) =
   mergeShortSegments
     [\<lparr>start = 0, end_seg = 1, text_seg = ''I want to share'', translation = ''a'',
       idiomatic = ''x'', isFavorite = None\<rparr>,
      \<lparr>start = 1, end_seg = 3.5, text_seg = ''No'', translation = ''b'',
       idiomatic = [], isFavorite = None\<rparr>]"
proof -
  have tok: "MIN_WORDS \<le> length (split_ws ''I want to share'')"
    by (simp add: split_ws_def isWhitespace_def MIN_WORDS_def)
  have dur: "(2::real) \<le> 3.5 - 1"
    by simp
  have "\<forall>s \<in> set [\<lparr>start = 0, end_seg = 1, text_seg = ''I want to share'', translation = ''a'',
                      idiomatic = ''x'', isFavorite = None\<rparr>,
                    \<lparr>start = 1, end_seg = 3.5, text_seg = ''No'', translation = ''b'',
                      idiomatic = [], isFavorite = None\<rparr>].
          MIN_WORDS \<le> length (split_ws (text_seg s)) \<or> 2 \<le> end_seg s - start s"
    using tok dur by simp
  from mergeShortSegments_idempotent_above_threshold [OF this] tok dur
  show ?thesis by blast
qed

section \<open>Properties of the active segment\<close>

lemma filter_at_most_one:
  assumes "\<forall>i < length xs. \<forall>j < length xs. P (xs ! i) \<longrightarrow> P (xs ! j) \<longrightarrow> i = j"
  shows "length (filter P xs) \<le> 1"
  using assms
proof (induction xs)
  case Nil
  show ?case by simp
next
  case (Cons x xs)
  have tail: "\<forall>i < length xs. \<forall>j < length xs. P (xs ! i) \<longrightarrow> P (xs ! j) \<longrightarrow> i = j"
  proof (intro allI impI)
    fix i j
    assume "i < length xs" "j < length xs" "P (xs ! i)" "P (xs ! j)"
    with Cons.prems have "Suc i = Suc j"
      by (metis length_Cons not_less_eq nth_Cons_Suc)
    then show "i = j" by simp
  qed
  show ?case
  proof (cases "P x")
    case False
    with Cons.IH [OF tail] show ?thesis by simp
  next
    case True
    have "\<not> P y" if "y \<in> set xs" for y
    proof
      assume "P y"
      from that obtain k where k: "k < length xs" "xs ! k = y"
        by (auto simp: in_set_conv_nth)
      have "P ((x # xs) ! 0)" "P ((x # xs) ! Suc k)" "Suc k < length (x # xs)"
        using True \<open>P y\<close> k by simp_all
      with Cons.prems have "0 = Suc k"
        by (metis length_greater_0_conv list.distinct(1))
      then show False by simp
    qed
    then have "filter P xs = []"
      by (simp add: filter_empty_conv)
    with True show ?thesis by simp
  qed
qed

text \<open>
  Claim C7. A segment is active exactly when \<open>start \<le> currentTime < end\<close>: the interval
  is closed on the left and open on the right. A segment from 1 to 2 is active at 1.999999
  and at 1, and is not active at 2.
\<close>

theorem isActive_half_open:
  "(isActive currentTime seg \<longleftrightarrow> currentTime \<in> {start seg ..< end_seg seg}) \<and>
   isActive 1.999999 (seg\<lparr>start := 1, end_seg := 2\<rparr>) \<and>
   isActive 1 (seg\<lparr>start := 1, end_seg := 2\<rparr>) \<and>
   \<not> isActive 2.0 (seg\<lparr>start := 1, end_seg := 2\<rparr>) \<and>
   activeFlags [seg\<lparr>start := 1, end_seg := 2\<rparr>] 1.999999 = [True] \<and>
   activeFlags [seg\<lparr>start := 1, end_seg := 2\<rparr>] 2.0 = [False]"
  by (simp add: isActive_def activeFlags_def)

text \<open>
  Claim C8. In a list whose segments have pairwise disjoint intervals \<open>[start, end)\<close>, at
  most one position is active at any time; none may be.
\<close>

theorem at_most_one_active:
  assumes "non_overlapping segs"
  shows "length (filter (isActive currentTime) segs) \<le> 1 \<and>
         length (filter id (activeFlags segs currentTime)) \<le> 1"
proof -
  have "\<forall>i < length segs. \<forall>j < length segs.
          isActive currentTime (segs ! i) \<longrightarrow> isActive currentTime (segs ! j) \<longrightarrow> i = j"
  proof (intro allI impI)
    fix i j
    assume ij: "i < length segs" "j < length segs"
      and act: "isActive currentTime (segs ! i)" "isActive currentTime (segs ! j)"
    from act have "currentTime \<in> interval_of (segs ! i) \<inter> interval_of (segs ! j)"
      by (simp add: isActive_def interval_of_def)
    then have "interval_of (segs ! i) \<inter> interval_of (segs ! j) \<noteq> {}"
      by blast
    with assms ij show "i = j"
      unfolding non_overlapping_def by blast
  qed
  then have one: "length (filter (isActive currentTime) segs) \<le> 1"
    by (rule filter_at_most_one)
  have "filter id (activeFlags segs currentTime) =
          map (isActive currentTime) (filter (isActive currentTime) segs)"
    by (simp add: activeFlags_def filter_map comp_def)
  with one show ?thesis by simp
qed

theorem at_most_one_active_witness:
  "non_overlapping
     [\<lparr>start = 0, end_seg = 1, text_seg = ''a'', translation = [], idiomatic = [], isFavorite = None\<rparr>,
      \<lparr>start = 1, end_seg = 2, text_seg = ''b'', translation = [], idiomatic = [], isFavorite = None\<rparr>] \<and>
   length (filter (isActive 1)
     [\<lparr>start = 0, end_seg = 1, text_seg = ''a'', translation = [], idiomatic = [], isFavorite = None\<rparr>,
      \<lparr>start = 1, end_seg = 2, text_seg = ''b'', translation = [], idiomatic = [], isFavorite = None\<rparr>]) = 1 \<and>
   length (filter (isActive 7)
     [\<lparr>start = 0, end_seg = 1, text_seg = ''a'', translation = [], idiomatic = [], isFavorite = None\<rparr>,
      \<lparr>start = 1, end_seg = 2, text_seg = ''b'', translation = [], idiomatic = [], isFavorite = None\<rparr>]) = 0"
proof -
  let ?segs = "[\<lparr>start = 0, end_seg = 1, text_seg = ''a'', translation = [], idiomatic = [],
                  isFavorite = None\<rparr>,
                \<lparr>start = 1, end_seg = 2, text_seg = ''b'', translation = [], idiomatic = [],
                  isFavorite = None\<rparr>]"
  have pre: "non_overlapping ?segs"
    by (auto simp: non_overlapping_def interval_of_def less_Suc_eq)
  have "length (filter (isActive 1) ?segs) \<le> 1"
    using at_most_one_active [OF pre, of 1] by blast
  moreover have "length (filter (isActive 1) ?segs) \<noteq> 0" "length (filter (isActive 7) ?segs) = 0"
    by (simp_all add: isActive_def)
  ultimately show ?thesis using pre by linarith
qed

section \<open>Properties of the favorite toggle\<close>

lemma filter_update_neither:
  "i < length xs \<Longrightarrow> \<not> P (xs ! i) \<Longrightarrow> \<not> P x \<Longrightarrow> filter P (xs[i := x]) = filter P xs"
  by (induction xs arbitrary: i) (auto split: nat.splits)

lemma toggle_in_bounds:
  assumes "0 \<le> index" and "index < int (length (segments t))"
  shows "handleToggleFavorite index (Some t) =
           Inr (Some (t\<lparr>segments := (segments t)[nat index :=
             (segments t ! nat index)
               \<lparr>isFavorite := Some (\<not> truthy (isFavorite (segments t ! nat index)))\<rparr>]\<rparr>))"
  using assms by (simp add: handleToggleFavorite_def Let_def)

lemma toggle_twice_in_bounds:
  assumes "0 \<le> index" and "index < int (length (segments t))"
  shows "toggleTwice index (Some t) =
           Inr (Some (t\<lparr>segments := (segments t)[nat index :=
             (segments t ! nat index)
               \<lparr>isFavorite := Some (truthy (isFavorite (segments t ! nat index)))\<rparr>]\<rparr>))"
proof -
  have i: "nat index < length (segments t)"
    using assms by simp
  show ?thesis
    using assms i
    by (simp add: toggleTwice_def toggle_in_bounds handleToggleFavorite_def Let_def truthy_def)
qed

text \<open>
  Claim C3, as the code has it. At an in-bounds position \<open>i\<close> the toggle returns a new
  transcription with the same language, meta and number of segments; every other
  position holds the segment it held; position \<open>i\<close> holds the same segment with only
  \<open>isFavorite\<close> changed, to the negation of its truth value. Two toggles at \<open>i\<close> leave
  every position as it was except that the flag at \<open>i\<close> now is the boolean that the
  original flag read as: the original transcription exactly when the flag was present,
  and \<open>false\<close> in place of an absent flag otherwise; the favorites view is the original
  one in both cases.
\<close>

theorem handleToggleFavorite_frame:
  assumes "0 \<le> index" and "index < int (length (segments t))"
  shows "\<exists>t' t''.
           handleToggleFavorite index (Some t) = Inr (Some t') \<and>
           language t' = language t \<and> meta t' = meta t \<and>
           length (segments t') = length (segments t) \<and>
           (\<forall>j < length (segments t). j \<noteq> nat index \<longrightarrow> segments t' ! j = segments t ! j) \<and>
           segments t' ! nat index =
             (segments t ! nat index)
               \<lparr>isFavorite := Some (\<not> truthy (isFavorite (segments t ! nat index)))\<rparr> \<and>
           truthy (isFavorite (segments t' ! nat index)) =
             (\<not> truthy (isFavorite (segments t ! nat index))) \<and>
           toggleTwice index (Some t) = Inr (Some t'') \<and>
           language t'' = language t \<and> meta t'' = meta t \<and>
           length (segments t'') = length (segments t) \<and>
           (\<forall>j < length (segments t). j \<noteq> nat index \<longrightarrow> segments t'' ! j = segments t ! j) \<and>
           segments t'' ! nat index =
             (segments t ! nat index)
               \<lparr>isFavorite := Some (truthy (isFavorite (segments t ! nat index)))\<rparr> \<and>
           favoriteSegments (segments t'') = favoriteSegments (segments t) \<and>
           (isFavorite (segments t ! nat index) \<noteq> None \<longrightarrow> t'' = t)"
proof -
  let ?i = "nat index"
  let ?old = "segments t ! ?i"
  let ?t' = "t\<lparr>segments := (segments t)[?i := ?old\<lparr>isFavorite := Some (\<not> truthy (isFavorite ?old))\<rparr>]\<rparr>"
  let ?t'' = "t\<lparr>segments := (segments t)[?i := ?old\<lparr>isFavorite := Some (truthy (isFavorite ?old))\<rparr>]\<rparr>"
  have i: "?i < length (segments t)"
    using assms by simp
  have once: "handleToggleFavorite index (Some t) = Inr (Some ?t')"
    using assms by (rule toggle_in_bounds)
  have twice: "toggleTwice index (Some t) = Inr (Some ?t'')"
    using assms by (rule toggle_twice_in_bounds)
  have frame1: "language ?t' = language t" "meta ?t' = meta t"
    "length (segments ?t') = length (segments t)"
    "\<forall>j < length (segments t). j \<noteq> ?i \<longrightarrow> segments ?t' ! j = segments t ! j"
    "segments ?t' ! ?i = ?old\<lparr>isFavorite := Some (\<not> truthy (isFavorite ?old))\<rparr>"
    "truthy (isFavorite (segments ?t' ! ?i)) = (\<not> truthy (isFavorite ?old))"
    using i by (simp_all add: truthy_def)
  have frame2: "language ?t'' = language t" "meta ?t'' = meta t"
    "length (segments ?t'') = length (segments t)"
    "\<forall>j < length (segments t). j \<noteq> ?i \<longrightarrow> segments ?t'' ! j = segments t ! j"
    "segments ?t'' ! ?i = ?old\<lparr>isFavorite := Some (truthy (isFavorite ?old))\<rparr>"
    using i by simp_all
  have present: "?t'' = t" if "isFavorite ?old \<noteq> None"
  proof -
    from that have "Some (truthy (isFavorite ?old)) = isFavorite ?old"
      by (auto simp: truthy_def)
    then have "?old\<lparr>isFavorite := Some (truthy (isFavorite ?old))\<rparr> = ?old"
      by simp
    then show ?thesis by (simp add: list_update_same_conv)
  qed
  have favs: "favoriteSegments (segments ?t'') = favoriteSegments (segments t)"
  proof (cases "truthy (isFavorite ?old)")
    case True
    then have "isFavorite ?old \<noteq> None"
      by (auto simp: truthy_def)
    then show ?thesis using present by simp
  next
    case False
    then show ?thesis
      using i by (simp add: favoriteSegments_def filter_update_neither truthy_def)
  qed
  from once twice frame1 frame2 favs present show ?thesis
    by blast
qed

theorem handleToggleFavorite_frame_witness:
  "(0::int) \<le> 1 \<and> (1::int) < int (Suc (Suc 0)) \<and>
   (\<exists>t'. handleToggleFavorite 1
      (Some \<lparr>language = ''en'',
             segments =
               [\<lparr>start = 0, end_seg = 1, text_seg = ''Hi'', translation = [], idiomatic = [],
                 isFavorite = None\<rparr>,
                \<lparr>start = 1, end_seg = 2, text_seg = ''Hi'', translation = [], idiomatic = [],
                 isFavorite = None\<rparr>],
             meta = \<lparr>wordCount = 2, estimatedLevel = ''A1'', speed = ''slow''\<rparr>\<rparr>) = Inr (Some t') \<and>
      map isFavorite (segments t') = [None, Some True])"
proof -
  let ?t = "\<lparr>language = ''en'',
             segments =
               [\<lparr>start = 0, end_seg = 1, text_seg = ''Hi'', translation = [], idiomatic = [],
                 isFavorite = None\<rparr>,
                \<lparr>start = 1, end_seg = 2, text_seg = ''Hi'', translation = [], idiomatic = [],
                 isFavorite = None\<rparr>],
             meta = \<lparr>wordCount = 2, estimatedLevel = ''A1'', speed = ''slow''\<rparr>\<rparr>"
  have pre: "(0::int) \<le> 1" "(1::int) < int (length (segments ?t))"
    by simp_all
  from handleToggleFavorite_frame [OF pre] obtain t' where
    t': "handleToggleFavorite 1 (Some ?t) = Inr (Some t')"
      "length (segments t') = length (segments ?t)"
      "\<forall>j < length (segments ?t). j \<noteq> nat 1 \<longrightarrow> segments t' ! j = segments ?t ! j"
      "segments t' ! nat 1 =
         (segments ?t ! nat 1)\<lparr>isFavorite := Some (\<not> truthy (isFavorite (segments ?t ! nat 1)))\<rparr>"
    by blast
  from t'(1) have "map isFavorite (segments t') = [None, Some True]"
    by (auto simp: handleToggleFavorite_def truthy_def)
  with t'(1) show ?thesis by simp
qed

text \<open>
  The claim as the specification states it fails where the flag is absent, which is how
  every segment arrives from the transcription: two toggles leave \<open>isFavorite: false\<close>
  where there was no field.
\<close>

theorem toggle_twice_restores_counterexample:
  "toggleTwice 0
     (Some \<lparr>language = ''en'',
            segments =
              [\<lparr>start = 0, end_seg = 1, text_seg = ''Hi'', translation = [], idiomatic = [],
                isFavorite = None\<rparr>],
            meta = \<lparr>wordCount = 1, estimatedLevel = ''A1'', speed = ''slow''\<rparr>\<rparr>) \<noteq>
   Inr (Some \<lparr>language = ''en'',
              segments =
                [\<lparr>start = 0, end_seg = 1, text_seg = ''Hi'', translation = [], idiomatic = [],
                  isFavorite = None\<rparr>],
              meta = \<lparr>wordCount = 1, estimatedLevel = ''A1'', speed = ''slow''\<rparr>\<rparr>)"
  by (simp add: toggleTwice_def handleToggleFavorite_def truthy_def)

section \<open>Properties of response parsing\<close>

lemma dropWhile_all: "\<forall>c \<in> set ws. P c \<Longrightarrow> dropWhile P (ws @ rest) = dropWhile P rest"
  by (induction ws) simp_all

lemma backtick_not_whitespace: "\<not> isWhitespace (CHR 0x60)"
  by (simp add: isWhitespace_def)

lemma dropWhile_fence: "dropWhile isWhitespace (fence @ rest) = fence @ rest"
  by (simp add: fence_def backtick_not_whitespace)

lemma stripLeadingFence_fenced:
  assumes "\<forall>c \<in> set ws1. isWhitespace c"
  shows "stripLeadingFence (fence @ ''json'' @ ws1 @ rest) = dropWhile isWhitespace rest"
proof -
  have "startsWith (fence @ ''json'') (fence @ ''json'' @ ws1 @ rest)"
    by (simp add: startsWith_def fence_def)
  moreover have "drop (length (fence @ ''json'')) (fence @ ''json'' @ ws1 @ rest) = ws1 @ rest"
    by (simp add: fence_def)
  ultimately show ?thesis
    using assms by (simp only: stripLeadingFence_def if_True dropWhile_all)
qed

lemma stripTrailingFence_fenced:
  assumes "\<forall>c \<in> set ws2. isWhitespace c"
  shows "stripTrailingFence (x @ ws2 @ fence) = rev (dropWhile isWhitespace (rev x))"
proof -
  have e: "endsWith fence (x @ ws2 @ fence)"
    by (simp add: endsWith_def)
  have t: "take (length (x @ ws2 @ fence) - length fence) (x @ ws2 @ fence) = x @ ws2"
    by simp
  have "dropWhile isWhitespace (rev (x @ ws2)) = dropWhile isWhitespace (rev x)"
    using assms dropWhile_all [of "rev ws2" isWhitespace "rev x"] by simp
  then show ?thesis
    by (simp only: stripTrailingFence_def e if_True t)
qed

lemma clean_fenced:
  assumes "\<forall>c \<in> set ws1. isWhitespace c" and "\<forall>c \<in> set ws2. isWhitespace c"
  shows "stripTrailingFence (stripLeadingFence (fence @ ''json'' @ ws1 @ body @ ws2 @ fence)) =
           trim_ws body"
proof -
  have lead: "stripLeadingFence (fence @ ''json'' @ ws1 @ body @ ws2 @ fence) =
                dropWhile isWhitespace (body @ ws2 @ fence)"
    using assms(1) by (rule stripLeadingFence_fenced)
  show ?thesis
  proof (cases "\<forall>c \<in> set body. isWhitespace c")
    case True
    then have "dropWhile isWhitespace (body @ ws2 @ fence) = fence"
      using assms(2) dropWhile_fence [of "[]"] by (simp add: dropWhile_all)
    moreover have "dropWhile isWhitespace body = []"
      using True by simp
    moreover have "stripTrailingFence fence = []"
      using stripTrailingFence_fenced [of "[]" "[]"] by simp
    ultimately show ?thesis
      by (simp only: lead trim_ws_def) simp
  next
    case False
    then obtain c where "c \<in> set body" "\<not> isWhitespace c"
      by blast
    then have "dropWhile isWhitespace (body @ ws2 @ fence) =
                 dropWhile isWhitespace body @ ws2 @ fence"
      by (rule dropWhile_append1)
    moreover have "stripTrailingFence (dropWhile isWhitespace body @ ws2 @ fence) =
                     rev (dropWhile isWhitespace (rev (dropWhile isWhitespace body)))"
      using assms(2) by (rule stripTrailingFence_fenced)
    ultimately show ?thesis
      by (simp only: lead trim_ws_def)
  qed
qed

lemma clean_unfenced:
  "\<not> startsWith (fence @ ''json'') text \<Longrightarrow> \<not> endsWith fence text \<Longrightarrow>
     stripTrailingFence (stripLeadingFence text) = text"
  by (simp add: stripLeadingFence_def stripTrailingFence_def)

lemma cleanAndParseJson_result:
  "cleanAndParseJson parse text =
     (case parse (stripTrailingFence (stripLeadingFence text)) of
        Some v \<Rightarrow> Inr v
      | None \<Rightarrow> Inl (Error ''Failed to parse AI response''))"
  by (simp add: cleanAndParseJson_def)

text \<open>
  What the helper does strip: a fence whose opening marker is three grave accents
  followed by \<open>json\<close> at the very start and whose closing marker is three grave
  accents at the very end, each with any whitespace next to it on the inside. What is
  parsed is then the body without the whitespace at its ends.
\<close>

lemma cleanAndParseJson_json_fence:
  assumes "\<forall>c \<in> set ws1. isWhitespace c" and "\<forall>c \<in> set ws2. isWhitespace c"
  shows "cleanAndParseJson parse (fence @ ''json'' @ ws1 @ body @ ws2 @ fence) =
           (case parse (trim_ws body) of
              Some v \<Rightarrow> Inr v
            | None \<Rightarrow> Inl (Error ''Failed to parse AI response''))"
  by (simp only: cleanAndParseJson_result clean_fenced [OF assms])

lemma cleanAndParseJson_unfenced:
  assumes "\<not> startsWith (fence @ ''json'') body" and "\<not> endsWith fence body"
  shows "cleanAndParseJson parse body =
           (case parse body of
              Some v \<Rightarrow> Inr v
            | None \<Rightarrow> Inl (Error ''Failed to parse AI response''))"
  by (simp only: cleanAndParseJson_result clean_unfenced [OF assms])

text \<open>
  Claim C9, at the input where the code departs from it. The text is a Markdown code
  fence around \<open>{}\<close> whose opening marker is bare: three grave accents, a line feed,
  \<open>{}\<close>, a line feed, three grave accents. The helper strips the closing marker and
  leaves the opening one: what it hands to the parser, whatever the parser is, is the
  three grave accents, the line feed and \<open>{}\<close>. No JSON text starts with a grave
  accent, so with a parser that reads \<open>{}\<close> and rejects that text, the unfenced \<open>{}\<close>
  parses and the fenced \<open>{}\<close> throws \<open>Error("Failed to parse AI response")\<close>: fencing
  valid JSON does not give the parse result of the unfenced JSON.
\<close>

theorem cleanAndParseJson_bare_fence:
  "stripTrailingFence (stripLeadingFence (fence @ [CHR 0x0A] @ ''{}'' @ [CHR 0x0A] @ fence)) =
     fence @ [CHR 0x0A] @ ''{}'' \<and>
   cleanAndParseJson parse (fence @ [CHR 0x0A] @ ''{}'' @ [CHR 0x0A] @ fence) =
     (case parse (fence @ [CHR 0x0A] @ ''{}'') of
        Some v \<Rightarrow> Inr v
      | None \<Rightarrow> Inl (Error ''Failed to parse AI response'')) \<and>
   cleanAndParseJson (\<lambda>s. if s = ''{}'' then Some (7 :: nat) else None) ''{}'' = Inr 7 \<and>
   cleanAndParseJson (\<lambda>s. if s = ''{}'' then Some (7 :: nat) else None)
     (fence @ [CHR 0x0A] @ ''{}'' @ [CHR 0x0A] @ fence) =
     Inl (Error ''Failed to parse AI response'')"
  by (simp add: cleanAndParseJson_def stripLeadingFence_def stripTrailingFence_def
      startsWith_def endsWith_def fence_def isWhitespace_def)

section \<open>Properties of the word definition fallback\<close>

lemma geminiAttempt_calls: "DeepSeek \<notin> set (fst (geminiAttempt w prompt))"
  by (simp add: geminiAttempt_def split: sum.splits)

lemma deepSeekAttempt_calls:
  "DEEPSEEK_API_KEY w \<noteq> [] \<Longrightarrow> fst (deepSeekAttempt w prompt) = [DeepSeek]"
  by (simp add: deepSeekAttempt_def callDeepSeek_def Let_def)

lemma getWordDefinition_primary_ok:
  assumes "snd (geminiAttempt w (definitionPrompt word ctx)) = Inr v"
  shows "getWordDefinition w word ctx = (fst (geminiAttempt w (definitionPrompt word ctx)), Inr v)"
  using assms by (auto simp: getWordDefinition_def Let_def split: prod.splits)

lemma getWordDefinition_no_key:
  assumes "snd (geminiAttempt w (definitionPrompt word ctx)) = Inl e1"
    and "DEEPSEEK_API_KEY w = []"
  shows "getWordDefinition w word ctx = (fst (geminiAttempt w (definitionPrompt word ctx)), Inl e1)"
  using assms by (auto simp: getWordDefinition_def Let_def split: prod.splits)

lemma getWordDefinition_retry:
  assumes "snd (geminiAttempt w (definitionPrompt word ctx)) = Inl e1"
    and "DEEPSEEK_API_KEY w \<noteq> []"
  shows "getWordDefinition w word ctx =
           (fst (geminiAttempt w (definitionPrompt word ctx)) @ [DeepSeek],
            snd (deepSeekAttempt w (definitionPrompt word ctx)))"
  using assms deepSeekAttempt_calls [OF assms(2), of "definitionPrompt word ctx"]
  by (auto simp: getWordDefinition_def Let_def split: prod.splits sum.splits)

text \<open>
  Claim C1, as the code has it. When the primary attempt succeeds its value is returned
  and the secondary provider is not requested. When the primary attempt fails and the
  secondary credential is configured, the secondary provider is requested exactly once
  and the operation ends as that retry ends: with its value, or with the failure of the
  secondary provider. When the primary attempt fails and no secondary credential is
  configured, the secondary provider is not requested and the original failure is
  surfaced.
\<close>

theorem getWordDefinition_fallback:
  "(\<forall>v. snd (geminiAttempt w (definitionPrompt word ctx)) = Inr v \<longrightarrow>
      snd (getWordDefinition w word ctx) = Inr v \<and>
      DeepSeek \<notin> set (fst (getWordDefinition w word ctx))) \<and>
   (\<forall>e1. snd (geminiAttempt w (definitionPrompt word ctx)) = Inl e1 \<and> DEEPSEEK_API_KEY w \<noteq> [] \<longrightarrow>
      snd (getWordDefinition w word ctx) = snd (deepSeekAttempt w (definitionPrompt word ctx)) \<and>
      length (filter (\<lambda>p. p = DeepSeek) (fst (getWordDefinition w word ctx))) = 1) \<and>
   (\<forall>e1. snd (geminiAttempt w (definitionPrompt word ctx)) = Inl e1 \<and> DEEPSEEK_API_KEY w = [] \<longrightarrow>
      snd (getWordDefinition w word ctx) = Inl e1 \<and>
      DeepSeek \<notin> set (fst (getWordDefinition w word ctx)))"
proof -
  let ?p = "definitionPrompt word ctx"
  have none: "filter (\<lambda>p. p = DeepSeek) (fst (geminiAttempt w ?p)) = []"
    using geminiAttempt_calls [of w ?p] by (auto simp: filter_empty_conv)
  have ok: "snd (getWordDefinition w word ctx) = Inr v \<and>
            DeepSeek \<notin> set (fst (getWordDefinition w word ctx))"
    if "snd (geminiAttempt w ?p) = Inr v" for v
    using getWordDefinition_primary_ok [OF that] geminiAttempt_calls [of w ?p] by simp
  have retry: "snd (getWordDefinition w word ctx) = snd (deepSeekAttempt w ?p) \<and>
               length (filter (\<lambda>p. p = DeepSeek) (fst (getWordDefinition w word ctx))) = 1"
    if "snd (geminiAttempt w ?p) = Inl e1" "DEEPSEEK_API_KEY w \<noteq> []" for e1
    using getWordDefinition_retry [OF that] none by simp
  have nokey: "snd (getWordDefinition w word ctx) = Inl e1 \<and>
               DeepSeek \<notin> set (fst (getWordDefinition w word ctx))"
    if "snd (geminiAttempt w ?p) = Inl e1" "DEEPSEEK_API_KEY w = []" for e1
    using getWordDefinition_no_key [OF that] geminiAttempt_calls [of w ?p] by simp
  from ok retry nokey show ?thesis by blast
qed

theorem getWordDefinition_fallback_witness:
  "snd (geminiAttempt
          \<lparr>API_KEY = ''k'', DEEPSEEK_API_KEY = ''d'',
           generateContent = (\<lambda>prompt. Inl (Rejected ''429 Resource Exhausted'')),
           fetchDeepSeek = (\<lambda>key systemPrompt userPrompt.
             Inr \<lparr>ok = True, statusText = ''OK'', content = Inr ''{}''\<rparr>),
           JSON_parse = (\<lambda>s. if s = ''{}'' then Some (7 :: nat) else None)\<rparr>
          (definitionPrompt ''run'' ''I run'')) = Inl (Rejected ''429 Resource Exhausted'') \<and>
   snd (getWordDefinition
          \<lparr>API_KEY = ''k'', DEEPSEEK_API_KEY = ''d'',
           generateContent = (\<lambda>prompt. Inl (Rejected ''429 Resource Exhausted'')),
           fetchDeepSeek = (\<lambda>key systemPrompt userPrompt.
             Inr \<lparr>ok = True, statusText = ''OK'', content = Inr ''{}''\<rparr>),
           JSON_parse = (\<lambda>s. if s = ''{}'' then Some (7 :: nat) else None)\<rparr>
          ''run'' ''I run'') = Inr 7"
proof -
  let ?w = "\<lparr>API_KEY = ''k'', DEEPSEEK_API_KEY = ''d'',
             generateContent = (\<lambda>prompt. Inl (Rejected ''429 Resource Exhausted'')),
             fetchDeepSeek = (\<lambda>key systemPrompt userPrompt.
               Inr \<lparr>ok = True, statusText = ''OK'', content = Inr ''{}''\<rparr>),
             JSON_parse = (\<lambda>s. if s = ''{}'' then Some (7 :: nat) else None)\<rparr>"
  let ?p = "definitionPrompt ''run'' ''I run''"
  have primary: "snd (geminiAttempt ?w ?p) = Inl (Rejected ''429 Resource Exhausted'')"
    by (simp add: geminiAttempt_def getAi_def)
  have key: "DEEPSEEK_API_KEY ?w \<noteq> []"
    by simp
  have secondary: "snd (deepSeekAttempt ?w ?p) = Inr 7"
    by (simp add: deepSeekAttempt_def callDeepSeek_def cleanAndParseJson_def
        stripLeadingFence_def stripTrailingFence_def startsWith_def endsWith_def fence_def)
  from getWordDefinition_fallback [of ?w "''run''" "''I run''"] primary key
  have "snd (getWordDefinition ?w ''run'' ''I run'') = snd (deepSeekAttempt ?w ?p)"
    by blast
  with primary secondary show ?thesis
    by (simp only:)
qed

text \<open>
  The claim as the specification states it fails when both providers fail: the failure
  that is surfaced is the secondary provider's, not the original one.
\<close>

theorem both_fail_counterexample:
  "snd (geminiAttempt
          \<lparr>API_KEY = ''k'', DEEPSEEK_API_KEY = ''d'',
           generateContent = (\<lambda>prompt. Inl (Rejected ''429 Resource Exhausted'')),
           fetchDeepSeek = (\<lambda>key systemPrompt userPrompt.
             Inr \<lparr>ok = False, statusText = ''Unauthorized'', content = Inr []\<rparr>),
           JSON_parse = (\<lambda>s. None :: nat option)\<rparr>
          (definitionPrompt ''run'' ''I run'')) = Inl (Rejected ''429 Resource Exhausted'') \<and>
   getWordDefinition
     \<lparr>API_KEY = ''k'', DEEPSEEK_API_KEY = ''d'',
      generateContent = (\<lambda>prompt. Inl (Rejected ''429 Resource Exhausted'')),
      fetchDeepSeek = (\<lambda>key systemPrompt userPrompt.
        Inr \<lparr>ok = False, statusText = ''Unauthorized'', content = Inr []\<rparr>),
      JSON_parse = (\<lambda>s. None :: nat option)\<rparr>
     ''run'' ''I run'' =
     ([Gemini, DeepSeek], Inl (Error ''DeepSeek API Error: Unauthorized'')) \<and>
   Inl (Error ''DeepSeek API Error: Unauthorized'') \<noteq>
     (Inl (Rejected ''429 Resource Exhausted'') :: js_error + nat)"
  by (simp add: getWordDefinition_def geminiAttempt_def deepSeekAttempt_def callDeepSeek_def
      getAi_def Let_def)

section \<open>Properties of PCM playback\<close>

lemma int16Array_length: "length (int16Array bytes) = length bytes div 2"
  by (induction bytes rule: int16Array.induct) simp_all

lemma int16Array_nth:
  "i < length bytes div 2 \<Longrightarrow>
     int16Array bytes ! i = push_bit 8 (ucast (bytes ! (2 * i + 1))) OR ucast (bytes ! (2 * i))"
proof (induction bytes arbitrary: i rule: int16Array.induct)
  case (1 lo hi rest)
  then show ?case by (cases i) simp_all
qed simp_all

lemma ucast_byte: "uint (ucast (lo :: 8 word) :: 16 word) = uint lo"
  by (simp add: uint_up_ucast is_up)

lemma or_is_plus:
  "push_bit 8 (ucast (hi :: 8 word)) OR ucast (lo :: 8 word) =
     (push_bit 8 (ucast hi) + ucast lo :: 16 word)"
  by (rule disjunctive_add [symmetric]) (auto simp: bit_simps dest: bit_imp_le_length)

lemma uint_high_byte: "uint (push_bit 8 (ucast (hi :: 8 word)) :: 16 word) = 256 * uint hi"
proof -
  have "uint hi < 256" using uint_lt2p [of hi] by simp
  moreover have "0 \<le> uint hi" by simp
  ultimately have tb: "take_bit 16 (256 * uint hi) = 256 * uint hi"
    by (simp add: take_bit_int_eq_self)
  have "uint (push_bit 8 (ucast hi) :: 16 word) =
          take_bit LENGTH(16) (push_bit 8 (uint (ucast hi :: 16 word)))"
    by (rule unsigned_push_bit_eq)
  also have "uint (ucast hi :: 16 word) = uint hi"
    by (rule ucast_byte)
  also have "push_bit 8 (uint hi) = 256 * uint hi"
    by (simp add: push_bit_eq_mult)
  finally show ?thesis
    using tb by simp
qed

lemma uint_int16:
  "uint (push_bit 8 (ucast (hi :: 8 word)) OR ucast (lo :: 8 word) :: 16 word) =
     uint lo + 256 * uint hi"
proof -
  have "uint hi < 256" "uint lo < 256"
    using uint_lt2p [of hi] uint_lt2p [of lo] by simp_all
  moreover have "0 \<le> uint hi" "0 \<le> uint lo"
    by simp_all
  ultimately have m: "(256 * uint hi + uint lo) mod 65536 = uint lo + 256 * uint hi"
    by simp
  have "uint (push_bit 8 (ucast hi) OR ucast lo :: 16 word) =
          uint (push_bit 8 (ucast hi) + ucast lo :: 16 word)"
    by (simp only: or_is_plus)
  also have "\<dots> = (uint (push_bit 8 (ucast hi) :: 16 word) + uint (ucast lo :: 16 word))
                      mod 2 ^ LENGTH(16)"
    by (rule uint_word_ariths)
  also have "\<dots> = (256 * uint hi + uint lo) mod 65536"
    by (simp only: ucast_byte uint_high_byte) simp
  finally show ?thesis
    by (simp only: m)
qed

lemma sint_int16: "sint (x :: 16 word) = (if uint x < 32768 then uint x else uint x - 65536)"
proof -
  have lo: "- 32768 \<le> sint x" using sint_ge [of x] by simp
  have hi: "sint x < 32768" using sint_lt [of x] by simp
  have u: "uint x = sint x mod 65536"
    using uint_sint [of x] by (simp add: take_bit_eq_mod)
  show ?thesis
  proof (cases "0 \<le> sint x")
    case True
    then have "sint x mod 65536 = sint x" using hi by simp
    then show ?thesis using u hi by simp
  next
    case False
    have "(sint x + 65536) mod 65536 = sint x + 65536"
      using False lo by (intro mod_pos_pos_trivial) simp_all
    then have "sint x mod 65536 = sint x + 65536"
      by simp
    then show ?thesis using u False lo by simp
  qed
qed

lemma int16Array_value:
  assumes "i < length bytes div 2"
  shows "sint (int16Array bytes ! i) = spec_int16le bytes i"
  by (simp only: int16Array_nth [OF assms] sint_int16 uint_int16 spec_int16le_def Let_def)

lemma sample_range:
  "- 1 \<le> real_of_int (sint (x :: 16 word)) / 32768 \<and> real_of_int (sint x) / 32768 < 1"
proof -
  have "- 32768 \<le> sint x" "sint x < 32768"
    using sint_ge [of x] sint_lt [of x] by simp_all
  then have "- 32768 \<le> real_of_int (sint x)" "real_of_int (sint x) < 32768"
    by linarith+
  then show ?thesis by simp
qed

text \<open>
  Claim C10, as the code has it. When the decoded byte string has an even, non-zero
  length, the decoder produces one sample for every two bytes; sample \<open>i\<close> is the
  \<open>i\<close>-th little-endian signed 16-bit integer of the bytes divided by 32768, and so
  lies in \<open>[-1, 1)\<close>. When the length is odd the view of the bytes as 16-bit integers
  cannot be made and a RangeError is raised; when there are no bytes the audio buffer
  cannot be made and a NotSupportedError is raised: no samples are produced.
\<close>

theorem playPcmData_samples:
  assumes "atob base64String = Inr binaryString"
  shows "(even (length binaryString) \<and> binaryString \<noteq> [] \<longrightarrow>
           (\<exists>samples. playPcmData base64String = Inr samples \<and>
              length samples = length binaryString div 2 \<and>
              (\<forall>i < length samples.
                 samples ! i =
                   real_of_int (spec_int16le (map (\<lambda>c. of_nat (charCodeAt c)) binaryString) i) / 32768 \<and>
                 - 1 \<le> samples ! i \<and> samples ! i < 1))) \<and>
         (odd (length binaryString) \<longrightarrow> playPcmData base64String = Inl RangeError) \<and>
         (binaryString = [] \<longrightarrow> playPcmData base64String = Inl NotSupportedError)"
proof -
  let ?bytes = "map (\<lambda>c. of_nat (charCodeAt c)) binaryString :: 8 word list"
  let ?samples = "map (\<lambda>x. real_of_int (sint x) / 32768) (int16Array ?bytes)"
  have odd_case: "playPcmData base64String = Inl RangeError" if "odd (length binaryString)"
    using that assms by (simp add: playPcmData_def)
  have empty_case: "playPcmData base64String = Inl NotSupportedError" if "binaryString = []"
    using that assms by (simp add: playPcmData_def)
  have even_case: "\<exists>samples. playPcmData base64String = Inr samples \<and>
              length samples = length binaryString div 2 \<and>
              (\<forall>i < length samples.
                 samples ! i = real_of_int (spec_int16le ?bytes i) / 32768 \<and>
                 - 1 \<le> samples ! i \<and> samples ! i < 1)"
    if ev: "even (length binaryString)" and ne: "binaryString \<noteq> []"
  proof -
    have "length binaryString \<noteq> 0" "length binaryString \<noteq> 1"
      using ev ne by auto
    then have "2 \<le> length binaryString"
      by linarith
    then have pos: "length (int16Array ?bytes) \<noteq> 0"
      by (simp add: int16Array_length)
    have run: "playPcmData base64String = Inr ?samples"
      using assms ev pos by (simp add: playPcmData_def Let_def)
    have len: "length ?samples = length binaryString div 2"
      by (simp add: int16Array_length)
    have vals: "?samples ! i = real_of_int (spec_int16le ?bytes i) / 32768 \<and>
                - 1 \<le> ?samples ! i \<and> ?samples ! i < 1" if "i < length ?samples" for i
    proof -
      from that have i: "i < length ?bytes div 2"
        by (simp add: int16Array_length)
      then have "i < length (int16Array ?bytes)"
        by (simp add: int16Array_length)
      then have "?samples ! i = real_of_int (sint (int16Array ?bytes ! i)) / 32768"
        by simp
      then show ?thesis
        using int16Array_value [OF i] sample_range [of "int16Array ?bytes ! i"] by simp
    qed
    from run len vals show ?thesis by blast
  qed
  from odd_case empty_case even_case show ?thesis by blast
qed

theorem playPcmData_samples_witness:
  "atob ''AID/fw=='' = Inr (map char_of [0, 128, 255, 127 :: nat]) \<and>
   even (length (map char_of [0, 128, 255, 127 :: nat])) \<and>
   (\<exists>samples. playPcmData ''AID/fw=='' = Inr samples \<and> length samples = 2 \<and>
      - 1 \<le> samples ! 0 \<and> samples ! 0 < 1 \<and> - 1 \<le> samples ! 1 \<and> samples ! 1 < 1) \<and>
   playPcmData ''AID/fw=='' = Inr [- 1, 32767 / 32768]"
proof -
  let ?bin = "map char_of [0, 128, 255, 127 :: nat]"
  have dec: "atob ''AID/fw=='' = Inr ?bin"
    by (simp add: atob_def isAsciiWhitespace_def endsWith_def base64Alphabet_def Let_def)
  have shape: "even (length ?bin)" "?bin \<noteq> []" "length ?bin div 2 = 2"
    by simp_all
  from playPcmData_samples [OF dec] shape(1,2)
  obtain samples where s: "playPcmData ''AID/fw=='' = Inr samples"
    "length samples = length ?bin div 2"
    "\<forall>i < length samples. - 1 \<le> samples ! i \<and> samples ! i < 1"
    by blast
  from s(2,3) shape(3) have "- 1 \<le> samples ! 0 \<and> samples ! 0 < 1 \<and> - 1 \<le> samples ! 1 \<and> samples ! 1 < 1"
    by simp
  with s(1,2) shape(3) have ex: "\<exists>samples. playPcmData ''AID/fw=='' = Inr samples \<and>
      length samples = 2 \<and>
      - 1 \<le> samples ! 0 \<and> samples ! 0 < 1 \<and> - 1 \<le> samples ! 1 \<and> samples ! 1 < 1"
    by auto
  have run: "playPcmData ''AID/fw=='' = Inr [- 1, 32767 / 32768]"
    by (simp add: playPcmData_def dec charCodeAt_def sint_int16 uint_int16)
  from dec shape(1) ex run show ?thesis
    by blast
qed

text \<open>
  The claim as stated fails on three decoded bytes: integer division promises one
  sample, and the decoder raises a RangeError instead.
\<close>

theorem odd_length_counterexample:
  "(\<exists>binaryString. atob ''AAAA'' = Inr binaryString \<and> length binaryString = 3) \<and>
   playPcmData ''AAAA'' = Inl RangeError \<and>
   \<not> (\<exists>samples. playPcmData ''AAAA'' = Inr samples \<and> length samples = 3 div 2)"
  by (simp add: playPcmData_def atob_def isAsciiWhitespace_def endsWith_def base64Alphabet_def
      Let_def charCodeAt_def)

end
